theory Spec2Isabelle
  imports Complex_Main "HOL-Library.Sublist"
begin

section \<open>Text primitives\<close>

text \<open>
  Titles and artist names are Python strings. The normalisation routines
  (\<^verbatim>\<open>clean_title\<close>, \<^verbatim>\<open>clean_artists\<close>, the legacy \<^verbatim>\<open>token_set\<close>) start with
  \<^verbatim>\<open>unicodedata.normalize("NFKD", s).encode("ascii", "ignore").decode("ascii").lower()\<close>:
  whatever is not ASCII after decomposition is dropped. For them the embedding works on
  the decomposed text: a \<^typ>\<open>string\<close> whose characters below 128 are the ASCII
  characters and whose other characters stand for code points without an ASCII value.
  On ASCII text the decomposition is the identity. The functions that take the text as
  it is get the Unicode methods of \<^verbatim>\<open>str\<close> as a parameter, further down.
\<close>

definition code :: "char \<Rightarrow> nat" where
  "code c = of_char c"

definition ascii_ignore :: "string \<Rightarrow> string" where
  "ascii_ignore s = filter (\<lambda>c. code c < 128) s"

definition lower_char :: "char \<Rightarrow> char" where
  "lower_char c = (if 65 \<le> code c \<and> code c \<le> 90 then char_of (code c + 32) else c)"

definition lower :: "string \<Rightarrow> string" where
  "lower s = map lower_char s"

text \<open>The common prefix of \<^verbatim>\<open>clean_title\<close>, \<^verbatim>\<open>clean_artists\<close> and the legacy
  \<^verbatim>\<open>token_set\<close>.\<close>

definition ascii_fold :: "string \<Rightarrow> string" where
  "ascii_fold s = lower (ascii_ignore s)"

text \<open>\<^verbatim>\<open>\s\<close> of a Unicode pattern and \<^verbatim>\<open>str.isspace\<close>, on ASCII: tab, line feed,
  vertical tab, form feed, carriage return, the separators 28 to 31 and the space.\<close>

definition is_space :: "char \<Rightarrow> bool" where
  "is_space c = ((9 \<le> code c \<and> code c \<le> 13) \<or> (28 \<le> code c \<and> code c \<le> 32))"

definition is_digit :: "char \<Rightarrow> bool" where
  "is_digit c = (48 \<le> code c \<and> code c \<le> 57)"

definition is_lower_alpha :: "char \<Rightarrow> bool" where
  "is_lower_alpha c = (97 \<le> code c \<and> code c \<le> 122)"

definition is_upper_alpha :: "char \<Rightarrow> bool" where
  "is_upper_alpha c = (65 \<le> code c \<and> code c \<le> 90)"

text \<open>\<^verbatim>\<open>\w\<close> on ASCII: letters, digits and the underscore.\<close>

definition is_word :: "char \<Rightarrow> bool" where
  "is_word c = (is_lower_alpha c \<or> is_upper_alpha c \<or> is_digit c \<or> c = CHR ''_'')"

fun starts_with :: "string \<Rightarrow> string \<Rightarrow> bool" where
  "starts_with [] s = True"
| "starts_with (k # ks) [] = False"
| "starts_with (k # ks) (c # cs) = (k = c \<and> starts_with ks cs)"

text \<open>\<^verbatim>\<open>w in s\<close> on strings.\<close>

fun contains :: "string \<Rightarrow> string \<Rightarrow> bool" where
  "contains w [] = (w = [])"
| "contains w (c # cs) = (starts_with w (c # cs) \<or> contains w cs)"

text \<open>\<^verbatim>\<open>str.strip()\<close>.\<close>

definition strip :: "string \<Rightarrow> string" where
  "strip s = rev (dropWhile is_space (rev (dropWhile is_space s)))"

text \<open>\<^verbatim>\<open>re.sub(r"[...]+", " ", s)\<close> for a character class \<open>P\<close>: every maximal run of
  characters of the class becomes one space.\<close>

function sub_runs :: "(char \<Rightarrow> bool) \<Rightarrow> string \<Rightarrow> string" where
  "sub_runs P [] = []"
| "sub_runs P (c # cs) =
     (if P c then CHR '' '' # sub_runs P (dropWhile P cs) else c # sub_runs P cs)"
  by pat_completeness auto
termination
  by (relation "measure (\<lambda>(P, s). length s)")
     (auto simp: length_dropWhile_le less_Suc_eq_le)

text \<open>The word boundary \<^verbatim>\<open>\b\<close> after a keyword: the text ends or goes on with a
  character that is not a word character.\<close>

fun ends_word :: "string \<Rightarrow> bool" where
  "ends_word [] = True"
| "ends_word (c # cs) = (\<not> is_word c)"

text \<open>The first keyword of an alternation that matches at the head of the text and is
  followed by a word boundary.\<close>

fun match_word :: "string list \<Rightarrow> string \<Rightarrow> string option" where
  "match_word [] s = None"
| "match_word (k # ks) s =
     (if starts_with k s \<and> ends_word (drop (length k) s) then Some k else match_word ks s)"

section \<open>Title normalisation\<close>

definition promo_words :: "string list" where
  "promo_words = [''official'', ''video'', ''audio'', ''lyric'', ''lyrics'', ''mv'', ''hd'',
     ''4k'', ''remaster'', ''remastered'', ''live'', ''cover'']"

definition remix_words :: "string list" where
  "remix_words = [''remix'', ''radio edit'', ''extended'', ''edit'', ''version'', ''karaoke'',
     ''cover'', ''live'', ''remastered'', ''mono'', ''stereo'']"

definition is_opener :: "char \<Rightarrow> bool" where
  "is_opener c = (c = CHR ''('' \<or> c = CHR ''['')"

definition is_closer :: "char \<Rightarrow> bool" where
  "is_closer c = (c = CHR '')'' \<or> c = CHR '']'')"

text \<open>After an opening bracket: the text up to the first closing bracket, and what
  follows that bracket. \<^verbatim>\<open>[^)\]]*\<close> cannot cross a closing bracket, so a match that
  starts at the opener ends at this bracket.\<close>

fun bracket_span :: "string \<Rightarrow> (string \<times> string) option" where
  "bracket_span [] = None"
| "bracket_span (c # cs) =
     (if is_closer c then Some ([], cs)
      else (case bracket_span cs of None \<Rightarrow> None | Some (g, r) \<Rightarrow> Some (c # g, r)))"

definition has_promo :: "string \<Rightarrow> bool" where
  "has_promo g = list_ex (\<lambda>w. contains w g) promo_words"

text \<open>\<^verbatim>\<open>re.sub(r"[\(\[][^)\]]*(official|...|cover)[^)\]]*[\)\]]", " ", s)\<close>.\<close>

function strip_brackets :: "string \<Rightarrow> string" where
  "strip_brackets [] = []"
| "strip_brackets (c # cs) =
     (if is_opener c then
        (case bracket_span cs of
           None \<Rightarrow> c # strip_brackets cs
         | Some (g, r) \<Rightarrow>
             if has_promo g then CHR '' '' # strip_brackets r else c # strip_brackets cs)
      else c # strip_brackets cs)"
  by pat_completeness auto
termination
proof (relation "measure length")
  fix c :: char and cs g r :: string and x :: "string \<times> string"
  have span: "bracket_span s = Some (g', r') \<Longrightarrow> length r' < length s" for s g' r'
    by (induction s arbitrary: g' r') (auto split: if_splits option.splits)
  assume "bracket_span cs = Some x" and "(g, r) = x"
  then show "(r, c # cs) \<in> measure length"
    using span [of cs g r] by simp
qed auto

text \<open>\<^verbatim>\<open>.*$\<close> after the qualifier: no line feed up to the end of the text, or a single
  one that ends the text (\<^verbatim>\<open>$\<close> also matches just before it, and it stays).\<close>

definition line_tail :: "string \<Rightarrow> string option" where
  "line_tail t =
     (if CHR 0x0A \<notin> set t then Some []
      else if last t = CHR 0x0A \<and> CHR 0x0A \<notin> set (butlast t) then Some [CHR 0x0A]
      else None)"

text \<open>An attempt to match \<^verbatim>\<open>\s*D+\s*\b(remix|...)\b.*$\<close> (or with a single \<^verbatim>\<open>D\<close>,
  when \<open>many\<close> is false) at the head of the text, for the dash class \<open>D\<close>; the result
  is what the substitution leaves of the text after the match.\<close>

definition suffix_at :: "(char \<Rightarrow> bool) \<Rightarrow> bool \<Rightarrow> string \<Rightarrow> string option" where
  "suffix_at D many s =
     (let s1 = dropWhile is_space s;
          run = (if many then takeWhile D s1 else take 1 (takeWhile D s1));
          s2 = drop (length run) s1;
          s3 = dropWhile is_space s2
      in if run = [] then None
         else if s3 = s2 \<and> is_word (last run) then None
         else (case match_word remix_words s3 of
                 None \<Rightarrow> None
               | Some k \<Rightarrow> line_tail (drop (length k) s3)))"

text \<open>The substitution replaces the leftmost match by one space.\<close>

fun strip_suffix :: "(char \<Rightarrow> bool) \<Rightarrow> bool \<Rightarrow> string \<Rightarrow> string" where
  "strip_suffix D many [] = []"
| "strip_suffix D many (c # cs) =
     (case suffix_at D many (c # cs) of
        Some rest \<Rightarrow> CHR '' '' # rest
      | None \<Rightarrow> c # strip_suffix D many cs)"

text \<open>\<^verbatim>\<open>REMIX_PAT.sub(" ", s)\<close>: \<open>prev\<close> tells whether the character before the
  head of the text is a word character.\<close>

function sub_remix :: "bool \<Rightarrow> string \<Rightarrow> string" where
  "sub_remix prev [] = []"
| "sub_remix prev (c # cs) =
     (case (if prev then None else match_word remix_words (c # cs)) of
        Some k \<Rightarrow> CHR '' '' # sub_remix True (drop (length k) (c # cs))
      | None \<Rightarrow> c # sub_remix (is_word c) cs)"
  by pat_completeness auto
termination
proof (relation "measure (\<lambda>(prev, s). length s)")
  fix prev :: bool and c :: char and cs k :: string
  have mem: "match_word ks s = Some k' \<Longrightarrow> k' \<in> set ks" for ks s k'
    by (induction ks) (auto split: if_splits)
  assume "(if prev then None else match_word remix_words (c # cs)) = Some k"
  then have "k \<in> set remix_words"
    by (auto split: if_splits dest: mem)
  then have "k \<noteq> []"
    by (auto simp: remix_words_def)
  then show "((True, drop (length k) (c # cs)), prev, c # cs)
       \<in> measure (\<lambda>(prev, s). length s)"
    by (cases k) auto
qed auto

definition is_sep :: "char \<Rightarrow> bool" where
  "is_sep c = (c = CHR ''|'' \<or> c = CHR ''-'' \<or> c = CHR ''_'' \<or> c = CHR ''/'')"

definition is_sep_legacy :: "char \<Rightarrow> bool" where
  "is_sep_legacy c = (c = CHR ''|'' \<or> c = CHR ''-'' \<or> c = CHR ''_'')"

definition is_dash :: "char \<Rightarrow> bool" where
  "is_dash c = (c = CHR ''-'' \<or> c = CHR ''_'')"

definition is_hyphen :: "char \<Rightarrow> bool" where
  "is_hyphen c = (c = CHR ''-'')"

text \<open>\<^verbatim>\<open>utils.clean_title\<close>.\<close>

definition clean_title :: "string \<Rightarrow> string" where
  "clean_title v =
     strip (sub_runs is_space (sub_runs is_sep (sub_remix False
       (strip_suffix is_dash True (strip_brackets (ascii_fold v))))))"

text \<open>\<^verbatim>\<open>legacy_sync.clean_title\<close>: the suffix rule takes one dash (the en and em
  dashes of its class are gone after the ASCII step) and the separator class has no
  slash.\<close>

definition clean_title_legacy :: "string \<Rightarrow> string" where
  "clean_title_legacy v =
     strip (sub_runs is_space (sub_runs is_sep_legacy (sub_remix False
       (strip_suffix is_hyphen False (strip_brackets (ascii_fold v))))))"

section \<open>Artist signature and keys\<close>

definition feat_words :: "string list" where
  "feat_words = [''feat'', ''ft'', ''con'', ''with'']"

text \<open>\<^verbatim>\<open>FEAT_PAT.split(s)[0]\<close>: the text before the first match of
  \<^verbatim>\<open>\b(feat\.?|ft\.?|con|with)\b\<close>. A dot after the marker never blocks the match:
  \<^verbatim>\<open>\.?\<close> gives it back when no word character follows it.\<close>

fun before_feat :: "bool \<Rightarrow> string \<Rightarrow> string" where
  "before_feat prev [] = []"
| "before_feat prev (c # cs) =
     (if \<not> prev \<and> match_word feat_words (c # cs) \<noteq> None then []
      else c # before_feat (is_word c) cs)"

definition is_artist_sep :: "char \<Rightarrow> bool" where
  "is_artist_sep c = (c = CHR '','' \<or> c = CHR ''/'' \<or> c = CHR ''&'' \<or> c = CHR '';''
     \<or> c = CHR ''+'')"

text \<open>Splitting at every character of a class: \<^verbatim>\<open>s.split(" ")\<close> splits at every
  space and keeps the empty pieces; \<^verbatim>\<open>s.split()\<close> splits at runs of white space
  and has no empty piece.\<close>

fun split_where :: "(char \<Rightarrow> bool) \<Rightarrow> string \<Rightarrow> string list" where
  "split_where P [] = [[]]"
| "split_where P (c # cs) =
     (if P c then [] # split_where P cs
      else (case split_where P cs of [] \<Rightarrow> [[c]] | w # ws \<Rightarrow> (c # w) # ws))"

definition split_on :: "char \<Rightarrow> string \<Rightarrow> string list" where
  "split_on sep s = split_where (\<lambda>c. c = sep) s"

definition split_ws :: "string \<Rightarrow> string list" where
  "split_ws s = filter (\<lambda>w. w \<noteq> []) (split_where is_space s)"

definition artist_tokens :: "string \<Rightarrow> string list" where
  "artist_tokens artist =
     (let normalized = strip (sub_runs is_space (sub_runs is_artist_sep
            (before_feat False (ascii_fold artist))))
      in filter (\<lambda>token. token \<noteq> []) (split_on CHR '' '' normalized))"

text \<open>Python compares strings by code point, a proper prefix first.\<close>

fun str_less :: "string \<Rightarrow> string \<Rightarrow> bool" where
  "str_less [] [] = False"
| "str_less [] (y # ys) = True"
| "str_less (x # xs) [] = False"
| "str_less (x # xs) (y # ys) = (code x < code y \<or> (code x = code y \<and> str_less xs ys))"

text \<open>The sort key \<^verbatim>\<open>(-len(item), item)\<close>.\<close>

definition sig_less :: "string \<Rightarrow> string \<Rightarrow> bool" where
  "sig_less a b = (length b < length a \<or> (length a = length b \<and> str_less a b))"

fun insort_by :: "('a \<Rightarrow> 'a \<Rightarrow> bool) \<Rightarrow> 'a \<Rightarrow> 'a list \<Rightarrow> 'a list" where
  "insort_by lt x [] = [x]"
| "insort_by lt x (y # ys) = (if lt y x then y # insort_by lt x ys else x # y # ys)"

definition sorted_by :: "('a \<Rightarrow> 'a \<Rightarrow> bool) \<Rightarrow> 'a list \<Rightarrow> 'a list" where
  "sorted_by lt xs = foldr (insort_by lt) xs []"

text \<open>\<^verbatim>\<open>clean_artists\<close>, the same in \<^verbatim>\<open>utils\<close> and \<^verbatim>\<open>legacy_sync\<close> on a list of
  strings: \<^verbatim>\<open>sorted(set(tokens), key=...)[:2]\<close>. The key is injective, so the order in
  which the set is walked does not show.\<close>

definition clean_artists :: "string list \<Rightarrow> string list" where
  "clean_artists artists = take 2 (sorted_by sig_less (remdups (concat (map artist_tokens artists))))"

text \<open>\<^verbatim>\<open>sep.join(xs)\<close>.\<close>

fun join :: "string \<Rightarrow> string list \<Rightarrow> string" where
  "join sep [] = []"
| "join sep [x] = x"
| "join sep (x # y # ys) = x @ sep @ join sep (y # ys)"



definition key_loose_legacy :: "string \<Rightarrow> string list \<Rightarrow> string" where
  "key_loose_legacy name artists =
     clean_title_legacy name @ ''::'' @ join '' '' (clean_artists artists)"

definition key_title_only_legacy :: "string \<Rightarrow> string" where
  "key_title_only_legacy name = clean_title_legacy name"

section \<open>Tracks, deduplication and reconciliation\<close>

text \<open>The track dictionaries built by the playlist readers: service, identifier, name
  and artists.\<close>

record track =
  service :: string
  ident :: string
  name :: string
  artists :: "string list"

text \<open>The loop of \<^verbatim>\<open>deduplicate_tracks\<close>, for the two key functions of the module
  it lives in.\<close>

fun dedupe_loop :: "(track \<Rightarrow> string) \<Rightarrow> (track \<Rightarrow> string) \<Rightarrow> string set \<Rightarrow> string set
    \<Rightarrow> track list \<Rightarrow> track list" where
  "dedupe_loop kl kt seen seen_title [] = []"
| "dedupe_loop kl kt seen seen_title (t # ts) =
     (if kl t \<in> seen \<or> kt t \<in> seen_title then dedupe_loop kl kt seen seen_title ts
      else t # dedupe_loop kl kt (insert (kl t) seen) (insert (kt t) seen_title) ts)"



definition loose_legacy :: "track \<Rightarrow> string" where
  "loose_legacy t = key_loose_legacy (name t) (artists t)"

definition title_only_legacy :: "track \<Rightarrow> string" where
  "title_only_legacy t = key_title_only_legacy (name t)"


definition deduplicate_tracks_legacy :: "track list \<Rightarrow> track list" where
  "deduplicate_tracks_legacy tracks = dedupe_loop loose_legacy title_only_legacy {} {} tracks"

text \<open>A Python dictionary keeps its keys in insertion order; storing under a key that is
  there replaces the value and leaves the position.\<close>

fun dict_set :: "'k \<Rightarrow> 'v \<Rightarrow> ('k \<times> 'v) list \<Rightarrow> ('k \<times> 'v) list" where
  "dict_set k v [] = [(k, v)]"
| "dict_set k v ((k', v') # kvs) =
     (if k' = k then (k, v) # kvs else (k', v') # dict_set k v kvs)"

text \<open>The pre-check of \<^verbatim>\<open>legacy_sync.main\<close>:
  \<^verbatim>\<open>src_map = {key_loose(...): t for t in src_tracks}\<close>, the two destination key sets,
  \<^verbatim>\<open>already = len(src_map.keys() & dst_keyset)\<close> and the loop that fills
  \<^verbatim>\<open>to_add\<close>.\<close>

definition src_map :: "track list \<Rightarrow> (string \<times> track) list" where
  "src_map src_tracks = foldl (\<lambda>m t. dict_set (loose_legacy t) t m) [] src_tracks"

definition dst_keyset :: "track list \<Rightarrow> string set" where
  "dst_keyset dst_tracks = loose_legacy ` set dst_tracks"

definition dst_titles :: "track list \<Rightarrow> string set" where
  "dst_titles dst_tracks = title_only_legacy ` set dst_tracks"

definition already :: "track list \<Rightarrow> track list \<Rightarrow> nat" where
  "already src_tracks dst_tracks = card (fst ` set (src_map src_tracks) \<inter> dst_keyset dst_tracks)"

definition to_add :: "track list \<Rightarrow> track list \<Rightarrow> track list" where
  "to_add src_tracks dst_tracks =
     map snd (filter (\<lambda>(k, t). \<not> (k \<in> dst_keyset dst_tracks
                                  \<or> title_only_legacy t \<in> dst_titles dst_tracks))
                (src_map src_tracks))"

section \<open>Token sets and candidate scoring\<close>

definition stop_legacy :: "string list" where
  "stop_legacy = [''the'', ''a'', ''an'', ''official'', ''video'', ''audio'', ''lyrics'', ''lyric'',
     ''remix'', ''edit'', ''radio'', ''version'', ''feat'', ''ft'', ''con'', ''with'']"

text \<open>The class \<^verbatim>\<open>[^a-z0-9 ]\<close>.\<close>

definition not_token_char :: "char \<Rightarrow> bool" where
  "not_token_char c = (\<not> (is_lower_alpha c \<or> is_digit c \<or> c = CHR '' ''))"

text \<open>\<^verbatim>\<open>legacy_sync.token_set\<close>.\<close>

definition token_set_legacy :: "string \<Rightarrow> string set" where
  "token_set_legacy s =
     set (filter (\<lambda>w. w \<noteq> [] \<and> w \<notin> set stop_legacy)
            (split_ws (sub_runs not_token_char (ascii_fold s))))"

text \<open>\<^verbatim>\<open>s.replace(old, new)\<close> for a pattern \<open>old\<close> that is not empty (the only use
  the code makes of it): the occurrences are replaced from the left, without overlap.\<close>

function replace :: "string \<Rightarrow> string \<Rightarrow> string \<Rightarrow> string" where
  "replace old new [] = []"
| "replace old new (c # cs) =
     (if old \<noteq> [] \<and> starts_with old (c # cs)
      then new @ replace old new (drop (length old) (c # cs))
      else c # replace old new cs)"
  by pat_completeness auto
termination
proof (relation "measure (\<lambda>(old, new, s). length s)")
  fix old new cs :: string and c :: char
  assume "old \<noteq> [] \<and> starts_with old (c # cs)"
  then show "((old, new, drop (length old) (c # cs)), old, new, c # cs)
       \<in> measure (\<lambda>(old, new, s). length s)"
    by (cases old) auto
qed auto

definition stop_words :: "string list" where
  "stop_words = [''the'', ''a'', ''an'', ''feat'', ''featuring'', ''official'', ''video'', ''audio'',
     ''ft'', ''con'', ''with'']"

text \<open>\<^verbatim>\<open>str.isalnum\<close> on ASCII.\<close>

definition is_alnum :: "char \<Rightarrow> bool" where
  "is_alnum c = (is_lower_alpha c \<or> is_upper_alpha c \<or> is_digit c)"

text \<open>Some functions work on the text as it is, without the ASCII step:
  \<^verbatim>\<open>websearch.token_set\<close> and \<^verbatim>\<open>cache_key\<close>. There the methods \<^verbatim>\<open>str.lower\<close>,
  \<^verbatim>\<open>str.isalnum\<close>, and \<^verbatim>\<open>str.isspace\<close> (behind \<^verbatim>\<open>str.split\<close> and \<^verbatim>\<open>str.strip\<close>)
  see every code point. What they do is a parameter of the embedding: in such a text a
  character above 127 is a code point that is not ASCII, and the methods say what it
  is. \<^verbatim>\<open>str.lower\<close> works on the whole string, since in Unicode it may change the
  length.\<close>

record str_methods =
  str_lower :: "string \<Rightarrow> string"
  str_isalnum :: "char \<Rightarrow> bool"
  str_isspace :: "char \<Rightarrow> bool"

text \<open>What Python promises of the three methods: on ASCII they are the ASCII ones, and
  no character is both alphanumeric and white space.\<close>

definition python_str :: "str_methods \<Rightarrow> bool" where
  "python_str U =
     ((\<forall>c. code c < 128 \<longrightarrow> (str_isalnum U c \<longleftrightarrow> is_alnum c) \<and> (str_isspace U c \<longleftrightarrow> is_space c))
      \<and> (\<forall>s. (\<forall>c \<in> set s. code c < 128) \<longrightarrow> str_lower U s = lower s)
      \<and> (\<forall>c. str_isalnum U c \<longrightarrow> \<not> str_isspace U c))"

text \<open>The methods on the code points below 256, with the characters read as Latin-1:
  the letters, digits and numeric signs of that block, its two white spaces beside the
  ASCII ones, and its capital letters, which lie 32 below their small letters.\<close>

definition latin1_isalnum :: "char \<Rightarrow> bool" where
  "latin1_isalnum c =
     (is_alnum c \<or> code c = 170 \<or> code c = 178 \<or> code c = 179 \<or> code c = 181
      \<or> code c = 185 \<or> code c = 186 \<or> (188 \<le> code c \<and> code c \<le> 190)
      \<or> (192 \<le> code c \<and> code c \<le> 214) \<or> (216 \<le> code c \<and> code c \<le> 246)
      \<or> 248 \<le> code c)"

definition latin1_isspace :: "char \<Rightarrow> bool" where
  "latin1_isspace c = (is_space c \<or> code c = 133 \<or> code c = 160)"

definition latin1_lower_char :: "char \<Rightarrow> char" where
  "latin1_lower_char c =
     (if (65 \<le> code c \<and> code c \<le> 90) \<or> (192 \<le> code c \<and> code c \<le> 214)
         \<or> (216 \<le> code c \<and> code c \<le> 222)
      then char_of (code c + 32) else c)"

definition latin1 :: str_methods where
  "latin1 = \<lparr>str_lower = map latin1_lower_char, str_isalnum = latin1_isalnum,
              str_isspace = latin1_isspace\<rparr>"

text \<open>\<^verbatim>\<open>s.strip()\<close> and \<^verbatim>\<open>s.split()\<close> on such a text.\<close>

definition str_strip :: "str_methods \<Rightarrow> string \<Rightarrow> string" where
  "str_strip U s = rev (dropWhile (str_isspace U) (rev (dropWhile (str_isspace U) s)))"

definition str_split :: "str_methods \<Rightarrow> string \<Rightarrow> string list" where
  "str_split U s = filter (\<lambda>w. w \<noteq> []) (split_where (str_isspace U) s)"

text \<open>\<^verbatim>\<open>websearch.token_set\<close>. It does not fold to ASCII.\<close>

definition token_set :: "str_methods \<Rightarrow> string \<Rightarrow> string set" where
  "token_set U text =
     (let tokens = replace ''audio'' '' '' (replace ''video'' '' ''
            (replace ''[official]'' '' '' (replace ''(official)'' '' '' (str_lower U text))));
          tokens = map (\<lambda>ch. if str_isalnum U ch then ch else CHR '' '') tokens
      in set (filter (\<lambda>word. word \<noteq> [] \<and> word \<notin> set stop_words) (str_split U tokens)))"

text \<open>\<^verbatim>\<open>jaccard\<close>, with the quotient of the two cardinalities as a rational number
  (the code divides two Python integers into a float).\<close>

definition jaccard :: "string set \<Rightarrow> string set \<Rightarrow> rat" where
  "jaccard a b =
     (if a = {} \<or> b = {} then 0
      else if card (a \<union> b) \<noteq> 0 then of_nat (card (a \<inter> b)) / of_nat (card (a \<union> b))
      else 0)"

text \<open>The body of the scoring loop of \<^verbatim>\<open>websearch.pick_best_web_result\<close>: the score
  of one candidate \<^verbatim>\<open>(url_value, title)\<close>.\<close>

definition score :: "str_methods \<Rightarrow> string \<Rightarrow> string list \<Rightarrow> string \<times> string \<Rightarrow> rat" where
  "score U track_title artist_names cand =
     (let desired_tokens = token_set U track_title \<union> set (clean_artists artist_names);
          got_tokens = token_set U (snd cand);
          s0 = jaccard desired_tokens got_tokens;
          title_tokens = token_set U track_title;
          s1 = (if title_tokens \<noteq> {} \<and> title_tokens \<subseteq> got_tokens then s0 + 15 / 100 else s0)
      in if contains ''/playlist'' (fst cand) then s1 - 8 / 100 else s1)"

definition scored :: "str_methods \<Rightarrow> (string \<times> string) list \<Rightarrow> string \<Rightarrow> string list
    \<Rightarrow> (rat \<times> string \<times> string) list" where
  "scored U results track_title artist_names =
     map (\<lambda>cand. (score U track_title artist_names cand, fst cand, snd cand)) results"

text \<open>The order of the tuples \<^verbatim>\<open>(score, url_value, title)\<close>.\<close>

definition tuple_less :: "rat \<times> string \<times> string \<Rightarrow> rat \<times> string \<times> string \<Rightarrow> bool" where
  "tuple_less p q =
     (case p of (s1, u1, t1) \<Rightarrow> case q of (s2, u2, t2) \<Rightarrow>
        s1 < s2 \<or> (s1 = s2 \<and> (str_less u1 u2 \<or> (u1 = u2 \<and> str_less t1 t2))))"

text \<open>What the code takes from \<^verbatim>\<open>urllib.parse\<close>: \<^verbatim>\<open>urlparse\<close>, which gives the
  parts of a URL or raises, and \<^verbatim>\<open>parse_qs\<close>, which gives the values of each query
  parameter. They are not code of the repository and are parameters of the embedding.\<close>

record url_parts =
  netloc :: string
  path :: string
  query :: string

record urllib =
  urlparse :: "string \<Rightarrow> url_parts option"
  parse_qs :: "string \<Rightarrow> string \<rightharpoonup> string list"

text \<open>\<^verbatim>\<open>parse_youtube_video_id\<close>.\<close>

definition parse_youtube_video_id :: "urllib \<Rightarrow> string \<Rightarrow> string option" where
  "parse_youtube_video_id lib v =
     (let candidate = strip v in
      if candidate = [] then None
      else (case urlparse lib candidate of
              None \<Rightarrow> None
            | Some parsed \<Rightarrow>
                if netloc parsed = ''youtu.be'' then
                  (let p = dropWhile (\<lambda>c. c = CHR ''/'') (path parsed)
                   in if p = [] then None else Some p)
                else if contains ''youtube.com'' (netloc parsed)
                        \<or> contains ''music.youtube.com'' (netloc parsed) then
                  (case parse_qs lib (query parsed) ''v'' of
                     None \<Rightarrow> None
                   | Some [] \<Rightarrow> None
                   | Some (video_id # rest) \<Rightarrow> if video_id \<noteq> [] then Some video_id else None)
                else None))"

text \<open>\<^verbatim>\<open>websearch.pick_best_web_result\<close>: \<^verbatim>\<open>scored.sort(reverse=True)\<close> puts the
  greatest tuple first.\<close>

definition pick_best_web_result :: "urllib \<Rightarrow> str_methods \<Rightarrow> (string \<times> string) list \<Rightarrow> string
    \<Rightarrow> string list \<Rightarrow> string option" where
  "pick_best_web_result lib U results track_title artist_names =
     (if results = [] then None
      else (case sorted_by (\<lambda>p q. tuple_less q p) (scored U results track_title artist_names) of
              [] \<Rightarrow> None
            | best # rest \<Rightarrow>
                if 35 / 100 \<le> fst best then parse_youtube_video_id lib (fst (snd best))
                else None))"

section \<open>Picking a web result by hand\<close>

text \<open>The console: the lines the user will type, and how many tables have been
  printed.\<close>

record console =
  stdin :: "string list"
  tables :: nat

text \<open>\<^verbatim>\<open>str.isdigit\<close> on ASCII, and the value \<^verbatim>\<open>int\<close> gives such a string.\<close>

definition isdigit :: "string \<Rightarrow> bool" where
  "isdigit s = (s \<noteq> [] \<and> list_all is_digit s)"

definition digits_value :: "string \<Rightarrow> nat" where
  "digits_value s = foldl (\<lambda>a c. 10 * a + (code c - 48)) 0 s"

text \<open>\<^verbatim>\<open>input_index\<close> of \<^verbatim>\<open>legacy_sync\<close>: it asks again until a line is a number in
  range. \<^verbatim>\<open>input()\<close> raises \<^verbatim>\<open>EOFError\<close> when the input has ended: the result is
  \<open>None\<close>.\<close>

fun input_index :: "nat \<Rightarrow> nat \<Rightarrow> bool \<Rightarrow> string list \<Rightarrow> (nat \<times> string list) option" where
  "input_index min_val max_val allow_zero [] = None"
| "input_index min_val max_val allow_zero (line # rest) =
     (let raw = strip line in
      if \<not> isdigit raw then input_index min_val max_val allow_zero rest
      else if allow_zero \<and> digits_value raw = 0 then Some (0, rest)
      else if min_val \<le> digits_value raw \<and> digits_value raw \<le> max_val
        then Some (digits_value raw, rest)
      else input_index min_val max_val allow_zero rest)"

text \<open>\<^verbatim>\<open>legacy_sync.pick_from_web_results\<close>; \<open>None\<close> is the \<^verbatim>\<open>EOFError\<close> of
  \<^verbatim>\<open>input_index\<close>, which the function lets through.\<close>

definition pick_from_web_results_legacy :: "urllib \<Rightarrow> (string \<times> string) list \<Rightarrow> string
    \<Rightarrow> console \<Rightarrow> (string option \<times> console) option" where
  "pick_from_web_results_legacy lib results track_display con =
     (if results = [] then Some (None, con)
      else if length results = 1 then Some (parse_youtube_video_id lib (fst (hd results)), con)
      else (let con1 = con\<lparr>tables := tables con + 1\<rparr> in
            case input_index 1 (min 5 (length results)) True (stdin con1) of
              None \<Rightarrow> None
            | Some (idx, rest) \<Rightarrow>
                Some (if idx = 0 then None
                      else parse_youtube_video_id lib (fst (results ! (idx - 1))),
                      con1\<lparr>stdin := rest\<rparr>)))"

text \<open>\<^verbatim>\<open>int(s)\<close> on ASCII text: white space around, an optional sign, then digits
  with single underscores between them; \<open>None\<close> is the \<^verbatim>\<open>ValueError\<close>.\<close>

fun digit_groups :: "bool \<Rightarrow> string \<Rightarrow> bool" where
  "digit_groups after_digit [] = after_digit"
| "digit_groups after_digit (c # cs) =
     (if is_digit c then digit_groups True cs
      else if c = CHR ''_'' \<and> after_digit then digit_groups False cs
      else False)"

definition py_int :: "string \<Rightarrow> int option" where
  "py_int s =
     (let t = strip s;
          neg = (t \<noteq> [] \<and> hd t = CHR ''-'');
          body = (if t \<noteq> [] \<and> (hd t = CHR ''-'' \<or> hd t = CHR ''+'') then tl t else t)
      in if digit_groups False body
         then Some ((if neg then - 1 else 1) * int (digits_value (filter is_digit body)))
         else None)"

text \<open>\<^verbatim>\<open>websearch.pick_from_web_results\<close>: the \<^verbatim>\<open>try\<close> around
  \<^verbatim>\<open>int(input().strip())\<close> turns the end of the input and a line that is not a number
  into \<^verbatim>\<open>None\<close>.\<close>

definition pick_from_web_results :: "urllib \<Rightarrow> (string \<times> string) list \<Rightarrow> string
    \<Rightarrow> console \<Rightarrow> string option \<times> console" where
  "pick_from_web_results lib results track_display con =
     (if results = [] then (None, con)
      else (let top = take 5 results;
                con1 = con\<lparr>tables := tables con + 1\<rparr> in
            case stdin con1 of
              [] \<Rightarrow> (None, con1)
            | line # rest \<Rightarrow>
                (let con2 = con1\<lparr>stdin := rest\<rparr> in
                 case py_int (strip line) of
                   None \<Rightarrow> (None, con2)
                 | Some selection \<Rightarrow>
                     if selection = 0 then (None, con2)
                     else if 1 \<le> selection \<and> selection \<le> int (length top)
                       then (parse_youtube_video_id lib (fst (top ! nat (selection - 1))), con2)
                     else (None, con2))))"

section \<open>Near duplicates\<close>

text \<open>\<^verbatim>\<open>PlaylistManager._is_similar\<close>. The ratio of
  \<^verbatim>\<open>difflib.SequenceMatcher(None, a, b)\<close> is library code: it is the parameter
  \<open>ratio\<close>. The candidate itself is not used by the source function, only its title
  and its signature.\<close>

definition is_similar :: "(string \<Rightarrow> string \<Rightarrow> rat) \<Rightarrow> track \<Rightarrow> string \<Rightarrow> string set \<Rightarrow> rat
    \<Rightarrow> bool" where
  "is_similar ratio keeper candidate_title candidate_artists threshold =
     (let keeper_title = clean_title (name keeper);
          keeper_artists = set (clean_artists (artists keeper));
          artist_overlap = (candidate_artists \<inter> keeper_artists \<noteq> {}
                            \<or> keeper_artists = {} \<or> candidate_artists = {})
      in threshold \<le> ratio candidate_title keeper_title \<and> artist_overlap)"

text \<open>The loop of \<^verbatim>\<open>PlaylistManager._detect_duplicates\<close>, with its two lists.\<close>

fun detect_loop :: "(string \<Rightarrow> string \<Rightarrow> rat) \<Rightarrow> rat \<Rightarrow> track list \<Rightarrow> track list \<Rightarrow> track list
    \<Rightarrow> track list \<times> track list" where
  "detect_loop ratio threshold kept duplicates [] = (kept, duplicates)"
| "detect_loop ratio threshold kept duplicates (t # ts) =
     (let normalized_title = clean_title (name t);
          artist_signature = set (clean_artists (artists t))
      in case find (\<lambda>keeper. is_similar ratio keeper normalized_title artist_signature threshold)
                kept of
           Some keeper \<Rightarrow> detect_loop ratio threshold kept (duplicates @ [t]) ts
         | None \<Rightarrow> detect_loop ratio threshold (kept @ [t]) duplicates ts)"

definition detect_duplicates :: "(string \<Rightarrow> string \<Rightarrow> rat) \<Rightarrow> track list \<Rightarrow> rat \<Rightarrow> track list" where
  "detect_duplicates ratio tracks threshold = snd (detect_loop ratio threshold [] [] tracks)"

text \<open>The list \<^verbatim>\<open>kept\<close> when the loop ends; the function does not return it.\<close>

definition kept_tracks :: "(string \<Rightarrow> string \<Rightarrow> rat) \<Rightarrow> track list \<Rightarrow> rat \<Rightarrow> track list" where
  "kept_tracks ratio tracks threshold = fst (detect_loop ratio threshold [] [] tracks)"

section \<open>The resolution run of the legacy sync\<close>

text \<open>\<^verbatim>\<open>cache_key\<close>, on the name and the artists as they are:
  \<^verbatim>\<open>sorted(artists)\<close> is the list in code point order.\<close>

definition cache_key :: "str_methods \<Rightarrow> string \<Rightarrow> string \<Rightarrow> string list \<Rightarrow> string" where
  "cache_key U svc title names =
     svc @ ''|'' @ str_lower U (str_strip U title) @ ''|''
       @ str_lower U (str_strip U
           (if names = [] then [] else join '' '' (sorted_by str_less names)))"

text \<open>What the run does to the outside, in order: a ghost log beside the module state.\<close>

datatype event =
    Search_call string
  | Prompt_shown
  | Insert_call string
  | Cache_put string string
  | Spotify_add "string list"

text \<open>The module state of \<^verbatim>\<open>legacy_sync\<close>: the four flags of \<^verbatim>\<open>STATE\<close>,
  \<^verbatim>\<open>PLAN_MODE_ONLY\<close>, \<^verbatim>\<open>pending_web_adds\<close>, \<^verbatim>\<open>added_video_ids\<close>, the data of the
  \<^verbatim>\<open>SearchCache\<close>, and the list \<^verbatim>\<open>to_add_sp_uris\<close> of \<^verbatim>\<open>main\<close>.\<close>

record run_state =
  yt_search_disabled :: bool
  prompted_after_quota :: bool
  continue_manual_after_quota :: bool
  continue_web_auto_after_quota :: bool
  plan_mode_only :: bool
  pending_web_adds :: "string list"
  added_video_ids :: "string set"
  cache :: "string \<rightharpoonup> string"
  to_add_sp_uris :: "string list"
  trace :: "event list"

text \<open>The answer of a remote call once \<^verbatim>\<open>retry_call\<close> has stopped retrying: a value,
  an \<^verbatim>\<open>HttpError\<close> with status 403 and "quota ... exceeded" in its text, another
  \<^verbatim>\<open>HttpError\<close>, or an exception of another class.\<close>

datatype 'a reply = Reply 'a | Quota_exceeded | Http_error | Failure

datatype 'a attempt = Ok 'a | Raised_http bool | Raised_other

text \<open>\<^verbatim>\<open>retry_call\<close>: on the quota error it sets the flag and raises again. The flag
  of \<^verbatim>\<open>Raised_http\<close> is what \<^verbatim>\<open>is_quota_exceeded_http_error\<close> says of the error.\<close>

definition retry_call :: "'a reply \<Rightarrow> run_state \<Rightarrow> 'a attempt \<times> run_state" where
  "retry_call r s =
     (case r of
        Reply x \<Rightarrow> (Ok x, s)
      | Quota_exceeded \<Rightarrow> (Raised_http True, s\<lparr>yt_search_disabled := True\<rparr>)
      | Http_error \<Rightarrow> (Raised_http False, s)
      | Failure \<Rightarrow> (Raised_other, s))"

text \<open>\<^verbatim>\<open>yt_search_one\<close>: the reply holds the video id of the first item, if any.\<close>

definition yt_search_one :: "string option reply \<Rightarrow> string \<Rightarrow> run_state
    \<Rightarrow> string option attempt \<times> run_state" where
  "yt_search_one r q s =
     (if yt_search_disabled s then (Ok None, s)
      else retry_call r (s\<lparr>trace := trace s @ [Search_call q]\<rparr>))"

text \<open>The option the user ends up typing at the prompt, which asks until it reads 1, 2
  or 3.\<close>

datatype choice = Manual | Web_auto | Stop

definition prompt_after_quota :: "choice \<Rightarrow> run_state \<Rightarrow> run_state" where
  "prompt_after_quota opt s =
     (if prompted_after_quota s then s
      else s\<lparr>prompted_after_quota := True,
             trace := trace s @ [Prompt_shown],
             continue_manual_after_quota := (opt = Manual),
             continue_web_auto_after_quota := (opt = Web_auto)\<rparr>)"

text \<open>What the outside answers while one missing track is resolved: the search reply,
  the choice at the prompt, the identifier that the web fallback with its pick and paste
  gives, the one a paste in manual mode gives, the reply of the insert call, and the
  answer to "Switch to planning mode?"; for Spotify the answer of the search (the URI
  of the first item if there is one, a \<^verbatim>\<open>SpotifyException\<close>, or another exception)
  and the pasted URI.\<close>

datatype sp_reply = Sp_result "string option" | Sp_exception | Sp_failure

record item_env =
  search_reply :: "string option reply"
  quota_choice :: choice
  web_vid :: "string option"
  pasted_vid :: "string option"
  insert_reply :: "unit reply"
  switch_to_planning :: bool
  sp_search :: sp_reply
  pasted_uri :: "string option"

text \<open>Python's truth value of an optional string: \<^verbatim>\<open>None\<close> and the empty string are
  false.\<close>

definition truthy :: "string option \<Rightarrow> bool" where
  "truthy v = (v \<noteq> None \<and> v \<noteq> Some [])"

datatype flow = Continue run_state | Returned run_state | Raised run_state

definition cache_put :: "string \<Rightarrow> string \<Rightarrow> run_state \<Rightarrow> run_state" where
  "cache_put k v s = s\<lparr>cache := (cache s)(k \<mapsto> v), trace := trace s @ [Cache_put k v]\<rparr>"

definition queue_pending :: "string \<Rightarrow> run_state \<Rightarrow> run_state" where
  "queue_pending vid s =
     (if vid \<notin> added_video_ids s
      then s\<lparr>pending_web_adds := pending_web_adds s @ [vid],
             added_video_ids := insert vid (added_video_ids s)\<rparr>
      else s)"

text \<open>\<^verbatim>\<open>add_youtube_videos(yt, dst_id, [vid])\<close>.\<close>

definition add_youtube_videos :: "unit reply \<Rightarrow> string \<Rightarrow> run_state \<Rightarrow> unit attempt \<times> run_state" where
  "add_youtube_videos r vid s =
     (if vid \<in> added_video_ids s then (Ok (), s)
      else (case retry_call r (s\<lparr>trace := trace s @ [Insert_call vid]\<rparr>) of
              (Ok u, s1) \<Rightarrow> (Ok (), s1\<lparr>added_video_ids := insert vid (added_video_ids s1)\<rparr>)
            | (Raised_http q, s1) \<Rightarrow> (Raised_http q, s1)
            | (Raised_other, s1) \<Rightarrow> (Raised_other, s1)))"

text \<open>The query \<^verbatim>\<open>f"{t['name']} {' '.join(t.get('artists', []))}".strip()\<close>.\<close>

definition search_query :: "str_methods \<Rightarrow> track \<Rightarrow> string" where
  "search_query U t = str_strip U (name t @ '' '' @ join '' '' (artists t))"

text \<open>Step 1 of the YouTube branch: the cache, then the API search.\<close>

definition search_stage :: "str_methods \<Rightarrow> item_env \<Rightarrow> track \<Rightarrow> run_state
    \<Rightarrow> flow + string option \<times> run_state" where
  "search_stage U e t s =
     (let vid = cache s (cache_key U ''youtube'' (name t) (artists t)) in
      if \<not> truthy vid \<and> \<not> yt_search_disabled s \<and> \<not> plan_mode_only s then
        (case yt_search_one (search_reply e) (search_query U t) s of
           (Ok v, s1) \<Rightarrow> Inr (v, s1)
         | (Raised_http q, s1) \<Rightarrow>
             (let s2 = prompt_after_quota (quota_choice e) s1 in
              if \<not> continue_manual_after_quota s2 \<and> \<not> continue_web_auto_after_quota s2
              then Inl (Returned s2)
              else Inr (None, s2\<lparr>yt_search_disabled := True\<rparr>))
         | (Raised_other, s1) \<Rightarrow> Inl (Raised s1))
      else Inr (vid, s))"

text \<open>Step 2: when there is no identifier yet, the web fallback or, in manual mode, the
  paste. Neither touches the module state; what they give is an answer of the outside.\<close>

definition fallback_stage :: "item_env \<Rightarrow> string option \<Rightarrow> run_state \<Rightarrow> string option" where
  "fallback_stage e vid s =
     (if \<not> truthy vid
      then (if \<not> continue_manual_after_quota s then web_vid e else pasted_vid e)
      else vid)"

text \<open>Step 3: insert, or collect in planning mode, and cache.\<close>

definition store_stage :: "str_methods \<Rightarrow> item_env \<Rightarrow> track \<Rightarrow> string option \<Rightarrow> run_state
    \<Rightarrow> flow" where
  "store_stage U e t vid s =
     (if truthy vid then
        (let v = the vid; ck = cache_key U ''youtube'' (name t) (artists t) in
         if plan_mode_only s then Continue (cache_put ck v (queue_pending v s))
         else (case add_youtube_videos (insert_reply e) v s of
                 (Ok u, s1) \<Rightarrow> Continue (cache_put ck v s1)
               | (Raised_http q, s1) \<Rightarrow>
                   if q then
                     (if switch_to_planning e
                      then Continue (queue_pending v (s1\<lparr>plan_mode_only := True\<rparr>))
                      else Returned s1)
                   else Continue s1
               | (Raised_other, s1) \<Rightarrow> Raised s1))
      else Continue s)"

definition resolve_youtube :: "str_methods \<Rightarrow> item_env \<Rightarrow> track \<Rightarrow> run_state \<Rightarrow> flow" where
  "resolve_youtube U e t s =
     (case search_stage U e t s of
        Inl stop \<Rightarrow> stop
      | Inr (vid, s1) \<Rightarrow> store_stage U e t (fallback_stage e vid s1) s1)"

text \<open>\<^verbatim>\<open>sp_search_one\<close>: the URI of the first item, if any; a
  \<^verbatim>\<open>SpotifyException\<close> is logged and gives \<^verbatim>\<open>None\<close>; any other exception goes
  through.\<close>

definition sp_search_one :: "sp_reply \<Rightarrow> string option attempt" where
  "sp_search_one r =
     (case r of Sp_result uri \<Rightarrow> Ok uri | Sp_exception \<Rightarrow> Ok None | Sp_failure \<Rightarrow> Raised_other)"

text \<open>The Spotify branch: a search result is cached at once, a pasted URI is not, and
  the URI joins \<^verbatim>\<open>to_add_sp_uris\<close>.\<close>

definition resolve_spotify :: "str_methods \<Rightarrow> item_env \<Rightarrow> track \<Rightarrow> run_state \<Rightarrow> flow" where
  "resolve_spotify U e t s =
     (let ck = cache_key U ''spotify'' (name t) (artists t);
          uri0 = cache s ck
      in case (if \<not> truthy uri0 then sp_search_one (sp_search e) else Ok uri0) of
           Ok uri1 \<Rightarrow>
             (let s1 = (if \<not> truthy uri0 \<and> truthy uri1 then cache_put ck (the uri1) s else s);
                  uri2 = (if \<not> truthy uri1 \<and> truthy (pasted_uri e) then pasted_uri e else uri1)
              in Continue (if truthy uri2
                           then s1\<lparr>to_add_sp_uris := to_add_sp_uris s1 @ [the uri2]\<rparr>
                           else s1))
         | Raised_http q \<Rightarrow> Raised s
         | Raised_other \<Rightarrow> Raised s)"

text \<open>The loop over \<^verbatim>\<open>to_add\<close>: a \<^verbatim>\<open>return\<close> or an exception ends it.\<close>

fun run_items :: "(item_env \<Rightarrow> track \<Rightarrow> run_state \<Rightarrow> flow) \<Rightarrow> (track \<times> item_env) list \<Rightarrow> run_state
    \<Rightarrow> flow" where
  "run_items step [] s = Continue s"
| "run_items step ((t, e) # rest) s =
     (case step e t s of
        Continue s1 \<Rightarrow> run_items step rest s1
      | Returned s1 \<Rightarrow> Returned s1
      | Raised s1 \<Rightarrow> Raised s1)"

text \<open>\<^verbatim>\<open>to_add_sp_uris[i : i + SPOTIFY_ADD_BATCH]\<close> for \<^verbatim>\<open>i\<close> in steps of the batch
  size.\<close>

function batches :: "nat \<Rightarrow> 'a list \<Rightarrow> 'a list list" where
  "batches n xs = (if n = 0 \<or> xs = [] then [] else take n xs # batches n (drop n xs))"
  by pat_completeness auto
termination
  by (relation "measure (\<lambda>(n, xs). length xs)") auto

definition SPOTIFY_ADD_BATCH :: nat where
  "SPOTIFY_ADD_BATCH = 100"

text \<open>The batch calls after the loop, \<open>ok i\<close> telling whether the call number
  \<open>i\<close> returns: each call is logged, and one that raises ends the program.\<close>

fun add_batches :: "(nat \<Rightarrow> bool) \<Rightarrow> nat \<Rightarrow> string list list \<Rightarrow> run_state \<Rightarrow> flow" where
  "add_batches ok i [] s = Continue s"
| "add_batches ok i (b # bs) s =
     (if ok i then add_batches ok (Suc i) bs (s\<lparr>trace := trace s @ [Spotify_add b]\<rparr>)
      else Raised (s\<lparr>trace := trace s @ [Spotify_add b]\<rparr>))"

text \<open>The part of \<^verbatim>\<open>main\<close> after the pre-check, for each destination: the loop,
  and for Spotify the batches that follow it.\<close>

definition run_youtube :: "str_methods \<Rightarrow> (track \<times> item_env) list \<Rightarrow> run_state \<Rightarrow> flow" where
  "run_youtube U items s = run_items (resolve_youtube U) items s"

definition run_spotify :: "str_methods \<Rightarrow> (nat \<Rightarrow> bool) \<Rightarrow> (track \<times> item_env) list \<Rightarrow> run_state
    \<Rightarrow> flow" where
  "run_spotify U ok items s =
     (case run_items (resolve_spotify U) items s of
        Continue s1 \<Rightarrow> add_batches ok 0 (batches SPOTIFY_ADD_BATCH (to_add_sp_uris s1)) s1
      | Returned s1 \<Rightarrow> Returned s1
      | Raised s1 \<Rightarrow> Raised s1)"

definition final :: "flow \<Rightarrow> run_state" where
  "final f = (case f of Continue s \<Rightarrow> s | Returned s \<Rightarrow> s | Raised s \<Rightarrow> s)"

text \<open>The module state when the program starts.\<close>

definition initial_state :: run_state where
  "initial_state =
     \<lparr>yt_search_disabled = False, prompted_after_quota = False,
      continue_manual_after_quota = False, continue_web_auto_after_quota = False,
      plan_mode_only = False, pending_web_adds = [], added_video_ids = {},
      cache = Map.empty, to_add_sp_uris = [], trace = []\<rparr>"

section \<open>The tracks of the scenarios\<close>

definition song_video :: track where
  "song_video = \<lparr>service = ''youtube'', ident = ''v1'', name = ''Song (Official Video)'',
     artists = [''Band Name'']\<rparr>"

definition song_radio_edit :: track where
  "song_radio_edit = \<lparr>service = ''youtube'', ident = ''v2'', name = ''Song - Radio Edit'',
     artists = [''Band Name'']\<rparr>"

definition alpha_x :: track where
  "alpha_x = \<lparr>service = ''spotify'', ident = ''a1'', name = ''Alpha'', artists = [''X'']\<rparr>"

definition alpha_y :: track where
  "alpha_y = \<lparr>service = ''youtube'', ident = ''a2'', name = ''Alpha'', artists = [''Y'']\<rparr>"

text \<open>An instance of the URL library that knows one short link, for the scenarios.\<close>

definition sample_lib :: urllib where
  "sample_lib =
     \<lparr>urlparse = (\<lambda>u. if u = ''https://youtu.be/abc''
                      then Some \<lparr>netloc = ''youtu.be'', path = ''/abc'', query = []\<rparr>
                      else None),
      parse_qs = (\<lambda>q. Map.empty)\<rparr>"

text \<open>A similarity ratio for the scenarios: 1 for equal titles, 0 for others.\<close>

definition sample_ratio :: "string \<Rightarrow> string \<Rightarrow> rat" where
  "sample_ratio a b = (if a = b then 1 else 0)"

section \<open>Observations on the log\<close>

definition prompts :: "event list \<Rightarrow> nat" where
  "prompts tr = length (filter (\<lambda>ev. ev = Prompt_shown) tr)"

fun is_search_call :: "event \<Rightarrow> bool" where
  "is_search_call (Search_call q) = True"
| "is_search_call ev = False"

definition search_calls :: "event list \<Rightarrow> event list" where
  "search_calls tr = filter is_search_call tr"

text \<open>What a part of the run may do to the quota flags: it never clears the
  search-disabled flag nor the prompted flag; once prompted it shows no prompt; before,
  it shows at most one and then sets the prompted flag; and with the search disabled it
  makes no search call.\<close>

definition quota_step :: "run_state \<Rightarrow> run_state \<Rightarrow> bool" where
  "quota_step s s' =
     ((yt_search_disabled s \<longrightarrow> yt_search_disabled s')
      \<and> (prompted_after_quota s \<longrightarrow>
            prompted_after_quota s' \<and> prompts (trace s') = prompts (trace s))
      \<and> (\<not> prompted_after_quota s \<longrightarrow>
            prompts (trace s') = prompts (trace s)
            \<or> (prompts (trace s') = prompts (trace s) + 1 \<and> prompted_after_quota s'))
      \<and> (yt_search_disabled s \<longrightarrow> search_calls (trace s') = search_calls (trace s)))"

text \<open>Environments and tracks for the scenarios of the run: every call succeeds with the
  identifier \<open>v\<close>; the search meets the quota; the insert meets the quota; the Spotify
  search finds nothing and the user pastes a URI.\<close>

definition found_env :: "string \<Rightarrow> item_env" where
  "found_env v =
     \<lparr>search_reply = Reply (Some v), quota_choice = Stop, web_vid = Some v, pasted_vid = None,
      insert_reply = Reply (), switch_to_planning = False, sp_search = Sp_result (Some v),
      pasted_uri = None\<rparr>"

definition search_quota_env :: "string \<Rightarrow> item_env" where
  "search_quota_env v = (found_env v)\<lparr>search_reply := Quota_exceeded, quota_choice := Web_auto\<rparr>"

definition insert_quota_env :: "string \<Rightarrow> item_env" where
  "insert_quota_env v = (found_env v)\<lparr>insert_reply := Quota_exceeded, switch_to_planning := True\<rparr>"

definition pasted_env :: "string \<Rightarrow> item_env" where
  "pasted_env u = (found_env u)\<lparr>sp_search := Sp_result None, pasted_uri := Some u\<rparr>"

definition titled :: "string \<Rightarrow> track" where
  "titled n = \<lparr>service = ''spotify'', ident = n, name = n, artists = []\<rparr>"

definition five_items :: "(track \<times> item_env) list" where
  "five_items =
     [(titled ''one'', found_env ''v1''), (titled ''two'', found_env ''v2''),
      (titled ''three'', search_quota_env ''v3''), (titled ''four'', found_env ''v4''),
      (titled ''five'', found_env ''v5'')]"

section \<open>Tokens, as the specification words them\<close>

text \<open>The specification's wording of a token: \<open>w\<close> is a maximal run of characters of
  the class \<open>Q\<close> in the text.\<close>

definition maximal_token :: "(char \<Rightarrow> bool) \<Rightarrow> string \<Rightarrow> string \<Rightarrow> bool" where
  "maximal_token Q w txt =
     (\<exists>pre post. txt = pre @ w @ post \<and> w \<noteq> [] \<and> (\<forall>c \<in> set w. Q c)
        \<and> (pre = [] \<or> \<not> Q (last pre)) \<and> (post = [] \<or> \<not> Q (hd post)))"

text \<open>The class \<^verbatim>\<open>[a-z0-9]\<close>.\<close>

definition is_token_char :: "char \<Rightarrow> bool" where
  "is_token_char c = (is_lower_alpha c \<or> is_digit c)"

text \<open>A run of characters outside the class \<open>P\<close> that starts right after a character of
  the class and goes up to the next one.\<close>

definition later :: "(char \<Rightarrow> bool) \<Rightarrow> string \<Rightarrow> string \<Rightarrow> bool" where
  "later P w s = (\<exists>pre post. s = pre @ w @ post \<and> pre \<noteq> [] \<and> P (last pre) \<and> w \<noteq> []
      \<and> (\<forall>c \<in> set w. \<not> P c) \<and> (post = [] \<or> P (hd post)))"

text \<open>The words that \<^verbatim>\<open>split\<close> finds when a run \<open>acc\<close> of word characters is
  already read.\<close>

definition words_after :: "(char \<Rightarrow> bool) \<Rightarrow> string \<Rightarrow> string \<Rightarrow> string list" where
  "words_after P acc s =
     filter (\<lambda>w. w \<noteq> []) ((acc @ hd (split_where P s)) # tl (split_where P s))"

section \<open>Properties of deduplication\<close>



lemma dedupe_loop_unseen:
  "t \<in> set (dedupe_loop kl kt S T xs) \<Longrightarrow> kl t \<notin> S \<and> kt t \<notin> T"
  by (induction xs arbitrary: S T) (auto split: if_splits)

lemma dedupe_loop_distinct_loose: "distinct (map kl (dedupe_loop kl kt S T xs))"
  by (induction xs arbitrary: S T) (auto dest: dedupe_loop_unseen)







section \<open>Properties of the pre-check\<close>

lemma dict_set_fresh: "k \<notin> fst ` set m \<Longrightarrow> dict_set k v m = m @ [(k, v)]"
  by (induction m) auto

lemma dict_set_keys: "fst ` set (dict_set k v m) = insert k (fst ` set m)"
proof (induction m)
  case Nil
  show ?case by simp
next
  case (Cons p m)
  obtain k' v' where p: "p = (k', v')" by (cases p)
  show ?case using Cons.IH unfolding p by (cases "k' = k") auto
qed

lemma foldl_dict_set_keys:
  "fst ` set (foldl (\<lambda>m t. dict_set (kl t) t m) m xs) = fst ` set m \<union> kl ` set xs"
  by (induction xs arbitrary: m) (auto simp: dict_set_keys)

lemma foldl_dict_set_distinct:
  "distinct (map kl (pre @ xs)) \<Longrightarrow>
   foldl (\<lambda>m t. dict_set (kl t) t m) (map (\<lambda>t. (kl t, t)) pre) xs = map (\<lambda>t. (kl t, t)) (pre @ xs)"
proof (induction xs arbitrary: pre)
  case Nil
  show ?case by simp
next
  case (Cons x xs)
  have fresh: "kl x \<notin> fst ` set (map (\<lambda>t. (kl t, t)) pre)"
    using Cons.prems by (auto simp: image_iff)
  have "distinct (map kl ((pre @ [x]) @ xs))" using Cons.prems by simp
  from Cons.IH [OF this] show ?case
    by (simp add: dict_set_fresh [OF fresh])
qed

lemma src_map_keys: "fst ` set (src_map src) = loose_legacy ` set src"
  unfolding src_map_def by (simp add: foldl_dict_set_keys)

lemma src_map_distinct:
  "distinct (map loose_legacy src) \<Longrightarrow> src_map src = map (\<lambda>t. (loose_legacy t, t)) src"
  unfolding src_map_def using foldl_dict_set_distinct [of loose_legacy "[]" src] by simp

lemma to_add_distinct:
  assumes "distinct (map loose_legacy src)"
  shows "to_add src dst =
     filter (\<lambda>t. loose_legacy t \<notin> dst_keyset dst \<and> title_only_legacy t \<notin> dst_titles dst) src"
  unfolding to_add_def src_map_distinct [OF assms]
  by (simp add: filter_map comp_def)


lemma src_map_values:
  "(k, t) \<in> set (foldl (\<lambda>m t. dict_set (kl t) t m) m xs) \<Longrightarrow> (k, t) \<in> set m \<or> t \<in> set xs"
proof (induction xs arbitrary: m)
  case Nil
  then show ?case by simp
next
  case (Cons x xs)
  have sub: "(k, t) \<in> set (dict_set k' v m') \<Longrightarrow> (k, t) \<in> set m' \<or> t = v" for k' v m'
    by (induction m') (auto split: if_splits)
  from Cons.IH [OF Cons.prems [simplified]] show ?case
    by (auto dest: sub)
qed

text \<open>
  C1. After both lists have been deduplicated, the pre-check of the legacy sync splits
  the source: a source track is missing exactly when its loose key is not a loose key
  of the destination and its title key is not a title key of the destination; the
  missing tracks and the others together are the source, no track is in both parts, and
  the missing tracks come in the order of the source.
\<close>

theorem reconcile_partition:
  "(let src = deduplicate_tracks_legacy source;
        dst = deduplicate_tracks_legacy destination;
        missing = to_add src dst;
        present = filter (\<lambda>t. loose_legacy t \<in> dst_keyset dst
                               \<or> title_only_legacy t \<in> dst_titles dst) src
    in missing = filter (\<lambda>t. loose_legacy t \<notin> dst_keyset dst
                               \<and> title_only_legacy t \<notin> dst_titles dst) src
       \<and> set missing \<union> set present = set src
       \<and> set missing \<inter> set present = {}
       \<and> length missing + length present = length src
       \<and> distinct src
       \<and> subseq missing src)"
proof -
  let ?src = "deduplicate_tracks_legacy source"
  let ?dst = "deduplicate_tracks_legacy destination"
  let ?P = "\<lambda>t. loose_legacy t \<notin> dst_keyset ?dst \<and> title_only_legacy t \<notin> dst_titles ?dst"
  have keys: "distinct (map loose_legacy ?src)"
    unfolding deduplicate_tracks_legacy_def by (rule dedupe_loop_distinct_loose)
  have missing: "to_add ?src ?dst = filter ?P ?src"
    by (rule to_add_distinct [OF keys])
  have present: "filter (\<lambda>t. loose_legacy t \<in> dst_keyset ?dst
                               \<or> title_only_legacy t \<in> dst_titles ?dst) ?src
                 = filter (\<lambda>t. \<not> ?P t) ?src"
    by (rule filter_cong) auto
  have len: "length (filter ?P ?src) + length (filter (\<lambda>t. \<not> ?P t) ?src) = length ?src"
    by (rule sum_length_filter_compl)
  have dist: "distinct ?src"
    using keys by (simp add: distinct_map)
  show ?thesis
    unfolding Let_def missing present using len dist by auto
qed

theorem reconcile_partition_witness:
  "to_add (deduplicate_tracks_legacy [song_video, song_radio_edit, alpha_x])
          (deduplicate_tracks_legacy [alpha_y]) = [song_video]
   \<and> to_add (deduplicate_tracks_legacy [song_video, song_radio_edit, alpha_x])
          (deduplicate_tracks_legacy []) = [song_video, alpha_x]"
proof -
  have src: "deduplicate_tracks_legacy [song_video, song_radio_edit, alpha_x] = [song_video, alpha_x]"
    by code_simp
  have dst: "deduplicate_tracks_legacy [alpha_y] = [alpha_y]" "deduplicate_tracks_legacy [] = []"
    by code_simp+
  have k: "loose_legacy song_video \<notin> dst_keyset [alpha_y]"
    "title_only_legacy song_video \<notin> dst_titles [alpha_y]"
    "title_only_legacy alpha_x \<in> dst_titles [alpha_y]"
    by code_simp+
  show ?thesis
    using reconcile_partition [of "[song_video, song_radio_edit, alpha_x]" "[alpha_y]"]
      reconcile_partition [of "[song_video, song_radio_edit, alpha_x]" "[]"] k
    unfolding Let_def src dst
    by (simp add: dst_keyset_def dst_titles_def)
qed

text \<open>
  C2. The count of already matched tracks is the number of loose keys that the source
  and the destination share, and nothing else: a source track that is kept out of the
  missing list by its title key alone is not counted (a track named Alpha by X against
  a destination holding Alpha by Y: nothing is missing and the count is 0). When the
  source and the destination hold the same single track, nothing is missing and the
  count is 1.
\<close>

theorem already_counts_loose_keys_only:
  "already src dst = card (loose_legacy ` set src \<inter> loose_legacy ` set dst)
   \<and> (t \<in> set src \<and> loose_legacy t \<notin> loose_legacy ` set dst
        \<and> title_only_legacy t \<in> title_only_legacy ` set dst
      \<longrightarrow> t \<notin> set (to_add src dst)
          \<and> loose_legacy t \<notin> loose_legacy ` set src \<inter> loose_legacy ` set dst)
   \<and> to_add [alpha_x] [alpha_y] = [] \<and> already [alpha_x] [alpha_y] = 0
   \<and> to_add [t] [t] = [] \<and> already [t] [t] = 1"
proof (intro conjI impI)
  show "already src dst = card (loose_legacy ` set src \<inter> loose_legacy ` set dst)"
    unfolding already_def dst_keyset_def by (simp add: src_map_keys)
  show "to_add [alpha_x] [alpha_y] = []"
    by code_simp
  show "already [alpha_x] [alpha_y] = 0"
    by code_simp
  show "to_add [t] [t] = []"
    by (simp add: to_add_def src_map_def dst_keyset_def)
  show "already [t] [t] = 1"
    by (simp add: already_def src_map_def dst_keyset_def)
next
  assume h: "t \<in> set src \<and> loose_legacy t \<notin> loose_legacy ` set dst
        \<and> title_only_legacy t \<in> title_only_legacy ` set dst"
  show "t \<notin> set (to_add src dst)"
    using h by (auto simp: to_add_def dst_titles_def)
  show "loose_legacy t \<notin> loose_legacy ` set src \<inter> loose_legacy ` set dst"
    using h by simp
qed

theorem already_counts_loose_keys_only_witness:
  "alpha_x \<in> set [alpha_x] \<and> loose_legacy alpha_x \<notin> loose_legacy ` set [alpha_y]
   \<and> title_only_legacy alpha_x \<in> title_only_legacy ` set [alpha_y]
   \<and> alpha_x \<notin> set (to_add [alpha_x] [alpha_y])
   \<and> already [alpha_x] [alpha_y] = card (loose_legacy ` set [alpha_x] \<inter> loose_legacy ` set [alpha_y])
   \<and> already [alpha_x] [alpha_x] = 1"
proof -
  have h: "alpha_x \<in> set [alpha_x]" "loose_legacy alpha_x \<notin> loose_legacy ` set [alpha_y]"
    "title_only_legacy alpha_x \<in> title_only_legacy ` set [alpha_y]"
    by code_simp+
  show ?thesis
    using already_counts_loose_keys_only [of "[alpha_x]" "[alpha_y]" alpha_x]
      already_counts_loose_keys_only [of "[alpha_x]" "[alpha_x]" alpha_x] h
    by blast
qed

section \<open>Title normalisation is not idempotent\<close>

text \<open>
  C5. Normalising a title twice should give what normalising it once gives. It does
  not: the underscore is a word character, so in \<^verbatim>\<open>mono_\<close> the qualifier has no word
  boundary after it and stays; the separator step then turns the underscore into a
  space, and the result \<^verbatim>\<open>mono\<close> is a bare qualifier, which a second pass removes.
  Both \<^verbatim>\<open>utils.clean_title\<close> and the copy in \<^verbatim>\<open>legacy_sync\<close> do this.
\<close>

theorem clean_title_twice_differs:
  "clean_title ''mono_'' = ''mono'' \<and> clean_title (clean_title ''mono_'') = ''''
   \<and> clean_title_legacy ''mono_'' = ''mono''
   \<and> clean_title_legacy (clean_title_legacy ''mono_'') = ''''"
  by code_simp

section \<open>Scores\<close>

lemma jaccard_bounds: "0 \<le> jaccard a b \<and> jaccard a b \<le> 1"
proof (cases "a = {} \<or> b = {} \<or> card (a \<union> b) = 0")
  case True
  then show ?thesis by (auto simp: jaccard_def)
next
  case False
  then have pos: "0 < card (a \<union> b)" by simp
  then have fin: "finite (a \<union> b)" by (rule card_ge_0_finite)
  have le: "card (a \<inter> b) \<le> card (a \<union> b)"
    by (rule card_mono [OF fin]) auto
  have eq: "jaccard a b = of_nat (card (a \<inter> b)) / of_nat (card (a \<union> b))"
    using False by (simp add: jaccard_def)
  have "(of_nat (card (a \<inter> b)) :: rat) \<le> of_nat (card (a \<union> b))"
    using le by simp
  then show ?thesis
    unfolding eq using pos by (simp add: divide_le_eq_1)
qed

lemma score_bounds:
  "- (8 / 100) \<le> score U track_title artist_names cand \<and> score U track_title artist_names cand \<le> 115 / 100"
proof -
  let ?j = "jaccard (token_set U track_title \<union> set (clean_artists artist_names)) (token_set U (snd cand))"
  have j: "0 \<le> ?j" "?j \<le> 1" using jaccard_bounds by auto
  show ?thesis
    unfolding score_def Let_def using j by (auto split: if_splits)
qed

text \<open>
  C9. The score that \<^verbatim>\<open>pick_best_web_result\<close> gives a candidate lies between -0.08
  and 1.15: the Jaccard similarity is between 0 and 1, the bonus adds 0.15 at most once
  and the playlist penalty takes 0.08 at most once. The Jaccard similarity of two empty
  sets is 0. The arithmetic is that of the rational numbers.
\<close>

theorem score_in_interval:
  "- (8 / 100) \<le> score U track_title artist_names cand
   \<and> score U track_title artist_names cand \<le> 115 / 100
   \<and> list_all (\<lambda>(s, u, t). - (8 / 100) \<le> s \<and> s \<le> 115 / 100) (scored U results track_title artist_names)
   \<and> 0 \<le> jaccard a b \<and> jaccard a b \<le> 1
   \<and> jaccard {} {} = 0"
proof -
  have all: "list_all (\<lambda>(s, u, t). - (8 / 100) \<le> s \<and> s \<le> 115 / 100) (scored U results track_title artist_names)"
    unfolding scored_def list_all_iff using score_bounds by auto
  show ?thesis using score_bounds jaccard_bounds all by (simp add: jaccard_def)
qed

theorem score_in_interval_witness:
  "score latin1 ''Song'' [] (''url2'', ''Song'') = 115 / 100
   \<and> score latin1 ''Song'' [] (''https://music.youtube.com/playlist?list=x'', ''Other'') = - (8 / 100)
   \<and> score latin1 ''Song'' [] (''url1'', ''Song (Live)'') = 65 / 100
   \<and> list_all (\<lambda>(s, u, t). - (8 / 100) \<le> s \<and> s \<le> 115 / 100)
        (scored latin1 [(''url1'', ''Song (Live)''), (''url2'', ''Song'')] ''Song'' [])"
proof -
  have ev: "score latin1 ''Song'' [] (''url2'', ''Song'') = 115 / 100"
    "score latin1 ''Song'' [] (''https://music.youtube.com/playlist?list=x'', ''Other'') = - (8 / 100)"
    "score latin1 ''Song'' [] (''url1'', ''Song (Live)'') = 65 / 100"
    by code_simp+
  show ?thesis
    using score_in_interval [where U = latin1 and track_title = "''Song''" and artist_names = "[]"
        and cand = "(''url2'', ''Song'')"
        and results = "[(''url1'', ''Song (Live)''), (''url2'', ''Song'')]"] ev
    by simp
qed

section \<open>The single candidate\<close>

text \<open>
  C10. With exactly one candidate the legacy \<^verbatim>\<open>pick_from_web_results\<close> returns the
  video id parsed from that candidate's URL, prints no table and reads no line: the
  console is as it was. \<^verbatim>\<open>websearch.pick_from_web_results\<close> has no such shortcut: it
  prints the table and reads a line, and returns the id only when the line is the
  number 1. On a candidate whose URL parses, with the answer 0, the two differ.
\<close>

theorem single_candidate_shortcut:
  "pick_from_web_results_legacy lib [(url, title)] track_display con
     = Some (parse_youtube_video_id lib url, con)
   \<and> pick_from_web_results lib [(url, title)] track_display con
     = (case stdin con of
          [] \<Rightarrow> (None, con\<lparr>tables := tables con + 1\<rparr>)
        | line # rest \<Rightarrow>
            (if py_int (strip line) = Some 1 then parse_youtube_video_id lib url else None,
             con\<lparr>tables := tables con + 1, stdin := rest\<rparr>))
   \<and> (parse_youtube_video_id lib url \<noteq> None \<longrightarrow>
        map_option fst (pick_from_web_results_legacy lib [(url, title)] track_display
                          (con\<lparr>stdin := ''0'' # rest\<rparr>))
        \<noteq> Some (fst (pick_from_web_results lib [(url, title)] track_display
                          (con\<lparr>stdin := ''0'' # rest\<rparr>))))"
proof (intro conjI impI)
  show "pick_from_web_results_legacy lib [(url, title)] track_display con
     = Some (parse_youtube_video_id lib url, con)"
    by (simp add: pick_from_web_results_legacy_def)
  show "pick_from_web_results lib [(url, title)] track_display con
     = (case stdin con of
          [] \<Rightarrow> (None, con\<lparr>tables := tables con + 1\<rparr>)
        | line # rest \<Rightarrow>
            (if py_int (strip line) = Some 1 then parse_youtube_video_id lib url else None,
             con\<lparr>tables := tables con + 1, stdin := rest\<rparr>))"
    by (auto simp: pick_from_web_results_def Let_def split: list.splits option.splits)
  have zero: "py_int (strip ''0'') = Some 0" by code_simp
  assume "parse_youtube_video_id lib url \<noteq> None"
  then show "map_option fst (pick_from_web_results_legacy lib [(url, title)] track_display
                          (con\<lparr>stdin := ''0'' # rest\<rparr>))
        \<noteq> Some (fst (pick_from_web_results lib [(url, title)] track_display
                          (con\<lparr>stdin := ''0'' # rest\<rparr>)))"
    by (simp add: pick_from_web_results_legacy_def pick_from_web_results_def Let_def zero)
qed

theorem single_candidate_shortcut_witness:
  "parse_youtube_video_id sample_lib ''https://youtu.be/abc'' = Some ''abc''
   \<and> pick_from_web_results_legacy sample_lib [(''https://youtu.be/abc'', ''Song'')] ''Song''
        \<lparr>stdin = [''0''], tables = 0\<rparr>
      = Some (Some ''abc'', \<lparr>stdin = [''0''], tables = 0\<rparr>)
   \<and> pick_from_web_results sample_lib [(''https://youtu.be/abc'', ''Song'')] ''Song''
        \<lparr>stdin = [''0''], tables = 0\<rparr>
      = (None, \<lparr>stdin = [], tables = 1\<rparr>)"
proof -
  have p: "parse_youtube_video_id sample_lib ''https://youtu.be/abc'' = Some ''abc''"
    by code_simp
  have z: "py_int (strip ''0'') = Some 0" by code_simp
  show ?thesis
    using single_candidate_shortcut [of sample_lib "''https://youtu.be/abc''" "''Song''" "''Song''"
        "\<lparr>stdin = [''0''], tables = 0\<rparr>" "[]"] p z
    by simp
qed

section \<open>Near duplicates\<close>

lemma find_Some_mem: "find P xs = Some x \<Longrightarrow> x \<in> set xs \<and> P x"
  by (induction xs) (auto split: if_splits)

lemma detect_loop_snoc:
  "detect_loop ratio threshold kept dups (ts @ [t]) =
     (let r = detect_loop ratio threshold kept dups ts in
      if \<exists>keeper \<in> set (fst r).
           is_similar ratio keeper (clean_title (name t)) (set (clean_artists (artists t))) threshold
      then (fst r, snd r @ [t]) else (fst r @ [t], snd r))"
proof (induction ts arbitrary: kept dups)
  case Nil
  show ?case
    by (auto simp: Let_def find_None_iff split: option.splits dest: find_Some_mem)
next
  case (Cons x xs)
  show ?case
    by (simp add: Let_def Cons.IH split: option.splits)
qed

lemma detect_loop_parts:
  "detect_loop ratio threshold kept dups ts = (k, d) \<Longrightarrow>
   length k + length d = length kept + length dups + length ts
   \<and> set k \<union> set d = set kept \<union> set dups \<union> set ts
   \<and> (\<exists>d'. d = dups @ d' \<and> subseq d' ts) \<and> (\<exists>k'. k = kept @ k' \<and> subseq k' ts)"
proof (induction ts arbitrary: kept dups k d)
  case Nil
  then show ?case by auto
next
  case (Cons x xs)
  show ?case
  proof (cases "find (\<lambda>keeper. is_similar ratio keeper (clean_title (name x))
                        (set (clean_artists (artists x))) threshold) kept")
    case None
    with Cons.prems have "detect_loop ratio threshold (kept @ [x]) dups xs = (k, d)" by simp
    from Cons.IH [OF this] show ?thesis by auto
  next
    case (Some a)
    with Cons.prems have "detect_loop ratio threshold kept (dups @ [x]) xs = (k, d)" by simp
    from Cons.IH [OF this] show ?thesis by auto
  qed
qed

text \<open>
  C7. In \<^verbatim>\<open>_detect_duplicates\<close> a pair is similar exactly when the ratio of the two
  normalised titles reaches the threshold and the two artist signatures share a token
  or one of them is empty. A track is a duplicate exactly when some track kept before it
  is similar to it; a duplicate does not join the kept list, so no later track is
  compared with it; a track that is no duplicate joins the kept list. The function
  returns the duplicates, in the order of the playlist, and every track is in exactly
  one of the two lists.
\<close>

theorem near_duplicates_classified:
  "(is_similar ratio keeper ct ca threshold \<longleftrightarrow>
      threshold \<le> ratio ct (clean_title (name keeper))
      \<and> (ca \<inter> set (clean_artists (artists keeper)) \<noteq> {}
         \<or> set (clean_artists (artists keeper)) = {} \<or> ca = {}))
   \<and> detect_duplicates ratio [] threshold = []
   \<and> kept_tracks ratio [] threshold = []
   \<and> (let dup = (\<exists>k \<in> set (kept_tracks ratio ts threshold).
                   is_similar ratio k (clean_title (name t)) (set (clean_artists (artists t)))
                     threshold)
      in detect_duplicates ratio (ts @ [t]) threshold
           = (if dup then detect_duplicates ratio ts threshold @ [t]
              else detect_duplicates ratio ts threshold)
         \<and> kept_tracks ratio (ts @ [t]) threshold
           = (if dup then kept_tracks ratio ts threshold
              else kept_tracks ratio ts threshold @ [t]))
   \<and> length (kept_tracks ratio ts threshold) + length (detect_duplicates ratio ts threshold)
       = length ts
   \<and> subseq (detect_duplicates ratio ts threshold) ts
   \<and> subseq (kept_tracks ratio ts threshold) ts"
proof -
  obtain k d where kd: "detect_loop ratio threshold [] [] ts = (k, d)"
    by (cases "detect_loop ratio threshold [] [] ts")
  have parts: "length k + length d = length ts" "subseq d ts" "subseq k ts"
    using detect_loop_parts [OF kd] by auto
  have snoc: "detect_loop ratio threshold [] [] (ts @ [t]) =
      (if \<exists>keeper \<in> set k.
            is_similar ratio keeper (clean_title (name t)) (set (clean_artists (artists t))) threshold
       then (k, d @ [t]) else (k @ [t], d))"
    using detect_loop_snoc [of ratio threshold "[]" "[]" ts t] kd by (simp add: Let_def)
  have sim: "is_similar ratio keeper ct ca threshold \<longleftrightarrow>
      threshold \<le> ratio ct (clean_title (name keeper))
      \<and> (ca \<inter> set (clean_artists (artists keeper)) \<noteq> {}
         \<or> set (clean_artists (artists keeper)) = {} \<or> ca = {})"
    by (simp add: is_similar_def Let_def)
  show ?thesis
    unfolding detect_duplicates_def kept_tracks_def Let_def snoc kd
    using parts sim by simp
qed

theorem near_duplicates_classified_witness:
  "detect_duplicates sample_ratio [song_video, song_radio_edit, alpha_x] (9 / 10) = [song_radio_edit]
   \<and> kept_tracks sample_ratio [song_video, song_radio_edit, alpha_x] (9 / 10) = [song_video, alpha_x]"
proof -
  have two: "kept_tracks sample_ratio [song_video, song_radio_edit] (9 / 10) = [song_video]"
    "detect_duplicates sample_ratio [song_video, song_radio_edit] (9 / 10) = [song_radio_edit]"
    by code_simp+
  have no: "\<not> is_similar sample_ratio song_video (clean_title (name alpha_x))
              (set (clean_artists (artists alpha_x))) (9 / 10)"
    by code_simp
  show ?thesis
    using near_duplicates_classified [of sample_ratio song_video "clean_title (name alpha_x)"
        "set (clean_artists (artists alpha_x))" "9 / 10" "[song_video, song_radio_edit]" alpha_x]
      two no
    by (simp add: Let_def)
qed

section \<open>The quota flags during the run\<close>

lemma quota_step_refl: "quota_step s s"
  by (simp add: quota_step_def)

lemma quota_step_trans: "quota_step s s1 \<Longrightarrow> quota_step s1 s2 \<Longrightarrow> quota_step s s2"
  unfolding quota_step_def by (cases "prompted_after_quota s1") auto

lemma retry_call_quota: "retry_call r s = (a, s') \<Longrightarrow> quota_step s s'"
  by (cases r) (auto simp: retry_call_def quota_step_def)

lemma yt_search_one_quota: "yt_search_one r q s = (a, s') \<Longrightarrow> quota_step s s'"
  by (cases r) (auto simp: yt_search_one_def retry_call_def quota_step_def prompts_def search_calls_def
      split: if_splits)

lemma prompt_after_quota_quota: "quota_step s (prompt_after_quota opt s)"
  by (auto simp: prompt_after_quota_def quota_step_def prompts_def search_calls_def)

lemma cache_put_quota: "quota_step s (cache_put k v s)"
  by (auto simp: cache_put_def quota_step_def prompts_def search_calls_def)

lemma queue_pending_quota: "quota_step s (queue_pending v s)"
  by (auto simp: queue_pending_def quota_step_def prompts_def search_calls_def)

lemma set_disabled_quota: "quota_step s (s\<lparr>yt_search_disabled := True\<rparr>)"
  by (auto simp: quota_step_def)

lemma set_plan_quota: "quota_step s (s\<lparr>plan_mode_only := True\<rparr>)"
  by (auto simp: quota_step_def)

lemma add_youtube_videos_quota: "add_youtube_videos r v s = (a, s') \<Longrightarrow> quota_step s s'"
  by (cases r) (auto simp: add_youtube_videos_def retry_call_def quota_step_def prompts_def
      search_calls_def split: if_splits)

lemma search_stage_quota:
  "search_stage U e t s = Inl f \<Longrightarrow> quota_step s (final f)"
  "search_stage U e t s = Inr (v, s') \<Longrightarrow> quota_step s s'"
proof -
  let ?q = "search_query U t"
  obtain a s1 where y: "yt_search_one (search_reply e) ?q s = (a, s1)"
    by (cases "yt_search_one (search_reply e) ?q s")
  have q1: "quota_step s s1" by (rule yt_search_one_quota [OF y])
  have q2: "quota_step s (prompt_after_quota (quota_choice e) s1)"
    by (rule quota_step_trans [OF q1 prompt_after_quota_quota])
  have q3: "quota_step s ((prompt_after_quota (quota_choice e) s1)\<lparr>yt_search_disabled := True\<rparr>)"
    by (rule quota_step_trans [OF q2 set_disabled_quota])
  show "search_stage U e t s = Inl f \<Longrightarrow> quota_step s (final f)"
    using q1 q2 q3 quota_step_refl [of s]
    by (cases a) (auto simp: search_stage_def Let_def y final_def split: if_splits)
  show "search_stage U e t s = Inr (v, s') \<Longrightarrow> quota_step s s'"
    using q1 q2 q3 quota_step_refl [of s]
    by (cases a) (auto simp: search_stage_def Let_def y final_def split: if_splits)
qed

lemma store_stage_quota: "quota_step s (final (store_stage U e t vid s))"
proof -
  obtain a s1 where y: "add_youtube_videos (insert_reply e) (the vid) s = (a, s1)"
    by (cases "add_youtube_videos (insert_reply e) (the vid) s")
  have q1: "quota_step s s1" by (rule add_youtube_videos_quota [OF y])
  have q2: "quota_step s (cache_put k v s1)" for k v
    by (rule quota_step_trans [OF q1 cache_put_quota])
  have q3: "quota_step s (queue_pending v (s1\<lparr>plan_mode_only := True\<rparr>))" for v
    by (rule quota_step_trans [OF quota_step_trans [OF q1 set_plan_quota] queue_pending_quota])
  have q4: "quota_step s (cache_put k v (queue_pending v s))" for k v
    by (rule quota_step_trans [OF queue_pending_quota cache_put_quota])
  show ?thesis
    using q1 q2 q3 q4 quota_step_refl [of s]
    by (cases a) (auto simp: store_stage_def Let_def y final_def split: if_splits)
qed

lemma resolve_youtube_quota: "quota_step s (final (resolve_youtube U e t s))"
proof (cases "search_stage U e t s")
  case (Inl f)
  then show ?thesis using search_stage_quota(1) [OF Inl] by (simp add: resolve_youtube_def)
next
  case (Inr p)
  obtain v s1 where p: "p = (v, s1)" by (cases p)
  have "quota_step s s1" using search_stage_quota(2) Inr p by blast
  then show ?thesis
    using store_stage_quota [of s1 U e t "fallback_stage e v s1"] Inr p
    by (auto simp: resolve_youtube_def intro: quota_step_trans)
qed

lemma run_items_quota:
  assumes "\<And>e t s. quota_step s (final (step e t s))"
  shows "quota_step s (final (run_items step items s))"
proof (induction items arbitrary: s)
  case Nil
  show ?case by (simp add: final_def quota_step_refl)
next
  case (Cons p items)
  obtain t e where p: "p = (t, e)" by (cases p)
  show ?case
  proof (cases "step e t s")
    case (Continue s1)
    have "quota_step s s1" using assms [of s e t] Continue by (simp add: final_def)
    then show ?thesis using Cons.IH [of s1] Continue p by (auto intro: quota_step_trans)
  next
    case (Returned s1)
    then show ?thesis using assms [of s e t] p by (simp add: final_def)
  next
    case (Raised s1)
    then show ?thesis using assms [of s e t] p by (simp add: final_def)
  qed
qed

lemma resolve_spotify_quota: "quota_step s (final (resolve_spotify U e t s))"
proof -
  have q: "quota_step s (cache_put k v s)" for k v by (rule cache_put_quota)
  have u: "quota_step s1 (s1\<lparr>to_add_sp_uris := xs\<rparr>)" for s1 xs
    by (simp add: quota_step_def)
  show ?thesis
    unfolding resolve_spotify_def Let_def final_def
    using q u quota_step_refl quota_step_trans [OF q u]
    by (cases "sp_search e") (simp_all add: sp_search_one_def)
qed

lemma add_batches_quota: "quota_step s (final (add_batches ok i bs s))"
proof (induction bs arbitrary: i s)
  case Nil
  show ?case by (simp add: final_def quota_step_refl)
next
  case (Cons b bs)
  have log: "quota_step s (s\<lparr>trace := trace s @ [Spotify_add b]\<rparr>)"
    by (simp add: quota_step_def prompts_def search_calls_def)
  show ?case
  proof (cases "ok i")
    case True
    then show ?thesis
      using quota_step_trans [OF log Cons.IH [of "s\<lparr>trace := trace s @ [Spotify_add b]\<rparr>" "Suc i"]]
      by simp
  next
    case False
    then show ?thesis using log by (simp add: final_def)
  qed
qed

text \<open>
  C3. During the loop of the legacy sync the search-disabled flag, once set, stays set
  to the end of the run. The after-quota prompt is shown at most once: once the prompted
  flag is set no prompt is shown, a run shows at most one prompt, and a run from the
  initial state leaves at most one in the log. While the search is disabled
  \<^verbatim>\<open>yt_search_one\<close> returns \<^verbatim>\<open>None\<close> and leaves the state as it is, and the run
  makes no search call.
\<close>

theorem quota_flag_irreversible:
  "(yt_search_disabled s \<longrightarrow> yt_search_disabled (final (run_youtube U items s)))
   \<and> (yt_search_disabled s \<longrightarrow> yt_search_disabled (final (run_spotify U ok items s)))
   \<and> (prompted_after_quota s \<longrightarrow>
        prompts (trace (final (run_youtube U items s))) = prompts (trace s))
   \<and> prompts (trace (final (run_youtube U items s))) \<le> prompts (trace s) + 1
   \<and> prompts (trace (final (run_youtube U items initial_state))) \<le> 1
   \<and> (yt_search_disabled s \<longrightarrow> yt_search_one r q s = (Ok None, s))
   \<and> (yt_search_disabled s \<longrightarrow>
        search_calls (trace (final (run_youtube U items s))) = search_calls (trace s))"
proof -
  have yt: "quota_step s (final (run_youtube U items s))"
    unfolding run_youtube_def by (rule run_items_quota) (rule resolve_youtube_quota)
  have loop: "quota_step s (final (run_items (resolve_spotify U) items s))"
    by (rule run_items_quota) (rule resolve_spotify_quota)
  have whole: "quota_step s (final (run_spotify U ok items s))"
  proof (cases "run_items (resolve_spotify U) items s")
    case (Continue s1)
    have a: "quota_step s s1" using loop Continue by (simp add: final_def)
    have b: "quota_step s1
        (final (add_batches ok 0 (batches SPOTIFY_ADD_BATCH (to_add_sp_uris s1)) s1))"
      by (rule add_batches_quota)
    have "run_spotify U ok items s
        = add_batches ok 0 (batches SPOTIFY_ADD_BATCH (to_add_sp_uris s1)) s1"
      using Continue by (simp add: run_spotify_def)
    then show ?thesis
      using quota_step_trans [OF a b] by simp
  next
    case (Returned s1)
    then show ?thesis using loop by (simp add: run_spotify_def final_def)
  next
    case (Raised s1)
    then show ?thesis using loop by (simp add: run_spotify_def final_def)
  qed
  have sp: "yt_search_disabled s \<longrightarrow> yt_search_disabled (final (run_spotify U ok items s))"
    using whole unfolding quota_step_def by blast
  have one: "yt_search_disabled s \<longrightarrow> yt_search_one r q s = (Ok None, s)"
    by (simp add: yt_search_one_def)
  have most: "prompts (trace (final (run_youtube U items s))) \<le> prompts (trace s) + 1"
    using yt unfolding quota_step_def by (cases "prompted_after_quota s") auto
  have init: "quota_step initial_state (final (run_youtube U items initial_state))"
    unfolding run_youtube_def by (rule run_items_quota) (rule resolve_youtube_quota)
  have start: "prompts (trace (final (run_youtube U items initial_state))) \<le> 1"
    using init unfolding quota_step_def by (auto simp: prompts_def initial_state_def)
  show ?thesis
    using yt sp one most start unfolding quota_step_def by blast
qed

theorem quota_flag_irreversible_witness:
  "yt_search_disabled (final (run_youtube latin1 five_items initial_state))
   \<and> prompts (trace (final (run_youtube latin1 five_items initial_state))) = 1
   \<and> search_calls (trace (final (run_youtube latin1 five_items initial_state)))
       = [Search_call ''one'', Search_call ''two'', Search_call ''three'']
   \<and> yt_search_disabled (final (run_youtube latin1 (drop 3 five_items)
         (final (run_youtube latin1 (take 3 five_items) initial_state))))
   \<and> search_calls (trace (final (run_youtube latin1 (drop 3 five_items)
         (final (run_youtube latin1 (take 3 five_items) initial_state)))))
       = [Search_call ''one'', Search_call ''two'', Search_call ''three'']"
proof -
  have ev: "yt_search_disabled (final (run_youtube latin1 (take 3 five_items) initial_state))"
    "search_calls (trace (final (run_youtube latin1 (take 3 five_items) initial_state)))
       = [Search_call ''one'', Search_call ''two'', Search_call ''three'']"
    "yt_search_disabled (final (run_youtube latin1 five_items initial_state))"
    "prompts (trace (final (run_youtube latin1 five_items initial_state))) = 1"
    "search_calls (trace (final (run_youtube latin1 five_items initial_state)))
       = [Search_call ''one'', Search_call ''two'', Search_call ''three'']"
    by code_simp+
  show ?thesis
    using quota_flag_irreversible [where s = "final (run_youtube latin1 (take 3 five_items) initial_state)"
        and U = latin1 and items = "drop 3 five_items" and r = "Reply None" and q = "[]"] ev
    by simp
qed

section \<open>When the cache is written\<close>

lemma run_items_spotify_trace:
  "\<exists>puts. trace (final (run_items (resolve_spotify U) items s)) = trace s @ puts
         \<and> (\<forall>ev \<in> set puts. \<exists>k v. ev = Cache_put k v)"
proof (induction items arbitrary: s)
  case Nil
  show ?case by (simp add: final_def)
next
  case (Cons p items)
  obtain t e where p: "p = (t, e)" by (cases p)
  have step: "\<exists>puts. trace (final (resolve_spotify U e t s)) = trace s @ puts
      \<and> (\<forall>ev \<in> set puts. \<exists>k v. ev = Cache_put k v)"
    by (cases "sp_search e")
      (auto simp: resolve_spotify_def Let_def cache_put_def final_def sp_search_one_def)
  show ?case
  proof (cases "resolve_spotify U e t s")
    case (Continue s1)
    with step obtain p1 where p1: "trace s1 = trace s @ p1" "\<forall>ev \<in> set p1. \<exists>k v. ev = Cache_put k v"
      by (auto simp: final_def)
    from Cons.IH [of s1] obtain p2 where
      p2: "trace (final (run_items (resolve_spotify U) items s1)) = trace s1 @ p2"
        "\<forall>ev \<in> set p2. \<exists>k v. ev = Cache_put k v" by blast
    have "trace (final (run_items (resolve_spotify U) (p # items) s)) = trace s @ (p1 @ p2)"
      using Continue p p1 p2 by simp
    moreover have "\<forall>ev \<in> set (p1 @ p2). \<exists>k v. ev = Cache_put k v"
      using p1 p2 by auto
    ultimately show ?thesis by blast
  next
    case (Returned s1)
    then show ?thesis using step p by (simp add: final_def)
  next
    case (Raised s1)
    then show ?thesis using step p by (simp add: final_def)
  qed
qed

lemma add_batches_trace:
  "\<exists>adds. trace (final (add_batches ok i bs s)) = trace s @ adds
         \<and> (\<forall>ev \<in> set adds. \<exists>b. ev = Spotify_add b)"
proof (induction bs arbitrary: i s)
  case Nil
  show ?case by (simp add: final_def)
next
  case (Cons b bs)
  show ?case
  proof (cases "ok i")
    case True
    from Cons.IH [of "Suc i" "s\<lparr>trace := trace s @ [Spotify_add b]\<rparr>"] obtain adds where
      "trace (final (add_batches ok (Suc i) bs (s\<lparr>trace := trace s @ [Spotify_add b]\<rparr>)))
         = trace s @ Spotify_add b # adds"
      "\<forall>ev \<in> set adds. \<exists>b. ev = Spotify_add b" by auto
    then show ?thesis using True by (intro exI [of _ "Spotify_add b # adds"]) auto
  next
    case False
    then show ?thesis by (intro exI [of _ "[Spotify_add b]"]) (simp add: final_def)
  qed
qed

text \<open>
  C4, as the code has it. For a Spotify destination an identifier found by the catalog
  search is written to the cache at once, and a pasted URI is not cached; the
  destination writes are the batches after the loop, so every cache write of the run
  precedes them. For a YouTube destination in planning mode the identifier is cached
  without an insert call, and queued unless it was already added in this run. Outside
  planning mode an identifier already inserted in this run is cached without an insert
  call; for any other identifier the insert call comes first, and the cache is written
  once the insert has returned.
\<close>

theorem cache_write_order:
  "(\<not> truthy (cache s (cache_key U ''spotify'' (name t) (artists t)))
      \<and> sp_search e = Sp_result r \<and> truthy r \<longrightarrow>
      cache (final (resolve_spotify U e t s)) (cache_key U ''spotify'' (name t) (artists t)) = r
      \<and> trace (final (resolve_spotify U e t s))
        = trace s @ [Cache_put (cache_key U ''spotify'' (name t) (artists t)) (the r)]
      \<and> to_add_sp_uris (final (resolve_spotify U e t s)) = to_add_sp_uris s @ [the r])
   \<and> (\<not> truthy (cache s (cache_key U ''spotify'' (name t) (artists t)))
      \<and> sp_search_one (sp_search e) = Ok r \<and> \<not> truthy r \<and> truthy (pasted_uri e) \<longrightarrow>
      cache (final (resolve_spotify U e t s)) = cache s
      \<and> trace (final (resolve_spotify U e t s)) = trace s
      \<and> to_add_sp_uris (final (resolve_spotify U e t s))
        = to_add_sp_uris s @ [the (pasted_uri e)])
   \<and> (\<exists>puts adds. trace (final (run_spotify U ok items s)) = trace s @ puts @ adds
        \<and> (\<forall>ev \<in> set puts. \<exists>k v. ev = Cache_put k v)
        \<and> (\<forall>ev \<in> set adds. \<exists>b. ev = Spotify_add b))
   \<and> (truthy vid \<and> plan_mode_only s \<longrightarrow>
        cache (final (store_stage U e t vid s)) (cache_key U ''youtube'' (name t) (artists t)) = vid
        \<and> trace (final (store_stage U e t vid s))
          = trace s @ [Cache_put (cache_key U ''youtube'' (name t) (artists t)) (the vid)]
        \<and> pending_web_adds (final (store_stage U e t vid s))
          = (if the vid \<in> added_video_ids s then pending_web_adds s
             else pending_web_adds s @ [the vid])
        \<and> added_video_ids (final (store_stage U e t vid s)) = insert (the vid) (added_video_ids s))
   \<and> (truthy vid \<and> \<not> plan_mode_only s \<and> the vid \<in> added_video_ids s \<longrightarrow>
        cache (final (store_stage U e t vid s)) (cache_key U ''youtube'' (name t) (artists t)) = vid
        \<and> trace (final (store_stage U e t vid s))
          = trace s @ [Cache_put (cache_key U ''youtube'' (name t) (artists t)) (the vid)])
   \<and> (truthy vid \<and> \<not> plan_mode_only s \<and> the vid \<notin> added_video_ids s \<longrightarrow>
        (\<exists>rest. trace (final (store_stage U e t vid s)) = trace s @ Insert_call (the vid) # rest)
        \<and> (insert_reply e = Reply () \<longrightarrow>
             cache (final (store_stage U e t vid s)) (cache_key U ''youtube'' (name t) (artists t))
               = vid
             \<and> trace (final (store_stage U e t vid s))
               = trace s @ [Insert_call (the vid),
                            Cache_put (cache_key U ''youtube'' (name t) (artists t)) (the vid)]))"
proof (intro conjI)
  show "\<not> truthy (cache s (cache_key U ''spotify'' (name t) (artists t)))
      \<and> sp_search e = Sp_result r \<and> truthy r \<longrightarrow>
      cache (final (resolve_spotify U e t s)) (cache_key U ''spotify'' (name t) (artists t)) = r
      \<and> trace (final (resolve_spotify U e t s))
        = trace s @ [Cache_put (cache_key U ''spotify'' (name t) (artists t)) (the r)]
      \<and> to_add_sp_uris (final (resolve_spotify U e t s)) = to_add_sp_uris s @ [the r]"
    by (auto simp: resolve_spotify_def Let_def final_def cache_put_def truthy_def
        sp_search_one_def)
next
  show "\<not> truthy (cache s (cache_key U ''spotify'' (name t) (artists t)))
      \<and> sp_search_one (sp_search e) = Ok r \<and> \<not> truthy r \<and> truthy (pasted_uri e) \<longrightarrow>
      cache (final (resolve_spotify U e t s)) = cache s
      \<and> trace (final (resolve_spotify U e t s)) = trace s
      \<and> to_add_sp_uris (final (resolve_spotify U e t s))
        = to_add_sp_uris s @ [the (pasted_uri e)]"
    by (simp add: resolve_spotify_def Let_def final_def)
next
  obtain puts where puts: "trace (final (run_items (resolve_spotify U) items s)) = trace s @ puts"
      "\<forall>ev \<in> set puts. \<exists>k v. ev = Cache_put k v"
    using run_items_spotify_trace [of U items s] by blast
  show "\<exists>puts adds. trace (final (run_spotify U ok items s)) = trace s @ puts @ adds
        \<and> (\<forall>ev \<in> set puts. \<exists>k v. ev = Cache_put k v)
        \<and> (\<forall>ev \<in> set adds. \<exists>b. ev = Spotify_add b)"
  proof (cases "run_items (resolve_spotify U) items s")
    case (Continue s1)
    obtain adds where adds:
      "trace (final (add_batches ok 0 (batches SPOTIFY_ADD_BATCH (to_add_sp_uris s1)) s1))
         = trace s1 @ adds"
      "\<forall>ev \<in> set adds. \<exists>b. ev = Spotify_add b"
      using add_batches_trace [of ok 0 "batches SPOTIFY_ADD_BATCH (to_add_sp_uris s1)" s1] by blast
    have "trace (final (run_spotify U ok items s)) = trace s @ puts @ adds"
      using Continue puts(1) adds(1) by (simp add: run_spotify_def final_def)
    then show ?thesis using puts(2) adds(2) by blast
  next
    case (Returned s1)
    then have "trace (final (run_spotify U ok items s)) = trace s @ puts @ []"
      using puts(1) by (simp add: run_spotify_def final_def)
    then show ?thesis using puts(2) by (intro exI [of _ puts] exI [of _ "[]"]) simp
  next
    case (Raised s1)
    then have "trace (final (run_spotify U ok items s)) = trace s @ puts @ []"
      using puts(1) by (simp add: run_spotify_def final_def)
    then show ?thesis using puts(2) by (intro exI [of _ puts] exI [of _ "[]"]) simp
  qed
next
  show "truthy vid \<and> plan_mode_only s \<longrightarrow>
        cache (final (store_stage U e t vid s)) (cache_key U ''youtube'' (name t) (artists t)) = vid
        \<and> trace (final (store_stage U e t vid s))
          = trace s @ [Cache_put (cache_key U ''youtube'' (name t) (artists t)) (the vid)]
        \<and> pending_web_adds (final (store_stage U e t vid s))
          = (if the vid \<in> added_video_ids s then pending_web_adds s
             else pending_web_adds s @ [the vid])
        \<and> added_video_ids (final (store_stage U e t vid s)) = insert (the vid) (added_video_ids s)"
    by (auto simp: store_stage_def Let_def final_def cache_put_def queue_pending_def truthy_def)
next
  show "truthy vid \<and> \<not> plan_mode_only s \<and> the vid \<in> added_video_ids s \<longrightarrow>
        cache (final (store_stage U e t vid s)) (cache_key U ''youtube'' (name t) (artists t)) = vid
        \<and> trace (final (store_stage U e t vid s))
          = trace s @ [Cache_put (cache_key U ''youtube'' (name t) (artists t)) (the vid)]"
    by (auto simp: store_stage_def Let_def final_def cache_put_def add_youtube_videos_def
        truthy_def)
next
  show "truthy vid \<and> \<not> plan_mode_only s \<and> the vid \<notin> added_video_ids s \<longrightarrow>
        (\<exists>rest. trace (final (store_stage U e t vid s)) = trace s @ Insert_call (the vid) # rest)
        \<and> (insert_reply e = Reply () \<longrightarrow>
             cache (final (store_stage U e t vid s)) (cache_key U ''youtube'' (name t) (artists t))
               = vid
             \<and> trace (final (store_stage U e t vid s))
               = trace s @ [Insert_call (the vid),
                            Cache_put (cache_key U ''youtube'' (name t) (artists t)) (the vid)])"
    by (cases "insert_reply e")
      (auto simp: store_stage_def Let_def final_def cache_put_def add_youtube_videos_def
        retry_call_def queue_pending_def truthy_def)
qed

theorem cache_write_order_witness:
  "trace (final (store_stage latin1 (found_env ''v1'') alpha_x (Some ''v1'') initial_state))
     = [Insert_call ''v1'', Cache_put ''youtube|alpha|x'' ''v1'']
   \<and> trace (final (store_stage latin1 (found_env ''v1'') alpha_x (Some ''v1'')
        (initial_state\<lparr>added_video_ids := {''v1''}\<rparr>)))
     = [Cache_put ''youtube|alpha|x'' ''v1'']
   \<and> trace (final (store_stage latin1 (found_env ''v1'') alpha_x (Some ''v1'')
        (initial_state\<lparr>plan_mode_only := True\<rparr>)))
     = [Cache_put ''youtube|alpha|x'' ''v1'']
   \<and> pending_web_adds (final (store_stage latin1 (found_env ''v1'') alpha_x (Some ''v1'')
        (initial_state\<lparr>plan_mode_only := True\<rparr>))) = [''v1'']
   \<and> trace (final (resolve_spotify latin1 (found_env ''u1'') alpha_x initial_state))
     = [Cache_put ''spotify|alpha|x'' ''u1'']
   \<and> trace (final (resolve_spotify latin1 (pasted_env ''u1'') alpha_x initial_state)) = []
   \<and> to_add_sp_uris (final (resolve_spotify latin1 (pasted_env ''u1'') alpha_x initial_state))
     = [''u1'']"
proof -
  have h: "truthy (Some ''v1'')" "\<not> plan_mode_only initial_state"
    "the (Some ''v1'') \<notin> added_video_ids initial_state"
    "insert_reply (found_env ''v1'') = Reply ()"
    "plan_mode_only (initial_state\<lparr>plan_mode_only := True\<rparr>)"
    "\<not> plan_mode_only (initial_state\<lparr>added_video_ids := {''v1''}\<rparr>)"
    "the (Some ''v1'') \<in> added_video_ids (initial_state\<lparr>added_video_ids := {''v1''}\<rparr>)"
    "sp_search (found_env ''u1'') = Sp_result (Some ''u1'')"
    "sp_search_one (sp_search (pasted_env ''u1'')) = Ok None"
    "\<not> truthy None" "truthy (Some ''u1'')"
    "truthy (pasted_uri (pasted_env ''u1''))" "pasted_uri (pasted_env ''u1'') = Some ''u1''"
    by (simp_all add: truthy_def initial_state_def found_env_def pasted_env_def
        sp_search_one_def)
  have c: "\<not> truthy (cache initial_state (cache_key latin1 ''spotify'' (name alpha_x) (artists alpha_x)))"
    by (simp add: truthy_def initial_state_def)
  have k: "cache_key latin1 ''youtube'' (name alpha_x) (artists alpha_x) = ''youtube|alpha|x''"
    "cache_key latin1 ''spotify'' (name alpha_x) (artists alpha_x) = ''spotify|alpha|x''"
    by code_simp+
  have t: "trace initial_state = []" "to_add_sp_uris initial_state = []"
    "pending_web_adds initial_state = []" "added_video_ids initial_state = {}"
    "trace (initial_state\<lparr>plan_mode_only := True\<rparr>) = []"
    "pending_web_adds (initial_state\<lparr>plan_mode_only := True\<rparr>) = []"
    "added_video_ids (initial_state\<lparr>plan_mode_only := True\<rparr>) = {}"
    "trace (initial_state\<lparr>added_video_ids := {''v1''}\<rparr>) = []"
    by (simp_all add: initial_state_def)
  show ?thesis
    using cache_write_order [where U = latin1 and s = initial_state and t = alpha_x
        and e = "found_env ''u1''" and r = "Some ''u1''" and vid = "Some ''v1''"
        and items = "[]" and ok = "\<lambda>i. True"]
      cache_write_order [where U = latin1 and s = initial_state and t = alpha_x
        and e = "pasted_env ''u1''" and r = None and vid = "Some ''v1''"
        and items = "[]" and ok = "\<lambda>i. True"]
      cache_write_order [where U = latin1 and s = initial_state and t = alpha_x
        and e = "found_env ''v1''" and r = None and vid = "Some ''v1''"
        and items = "[]" and ok = "\<lambda>i. True"]
      cache_write_order [where U = latin1 and s = "initial_state\<lparr>plan_mode_only := True\<rparr>"
        and t = alpha_x and e = "found_env ''v1''" and r = None and vid = "Some ''v1''"
        and items = "[]" and ok = "\<lambda>i. True"]
      cache_write_order [where U = latin1 and s = "initial_state\<lparr>added_video_ids := {''v1''}\<rparr>"
        and t = alpha_x and e = "found_env ''v1''" and r = None and vid = "Some ''v1''"
        and items = "[]" and ok = "\<lambda>i. True"]
      h c k t
    by simp
qed

text \<open>
  C4 as stated fails on the YouTube branch: the search resolves the track to \<^verbatim>\<open>v1\<close>,
  the insert is called and meets the quota, and the cache holds nothing for the track.
  It fails on the Spotify branch for a pasted URI: the URI goes to the destination in a
  batch and the cache holds nothing for the track.
\<close>

theorem cache_before_write_counterexample:
  "trace (final (run_youtube latin1 [(alpha_x, insert_quota_env ''v1'')] initial_state))
     = [Search_call ''Alpha X'', Insert_call ''v1'']
   \<and> cache (final (run_youtube latin1 [(alpha_x, insert_quota_env ''v1'')] initial_state))
       (cache_key latin1 ''youtube'' ''Alpha'' [''X'']) = None
   \<and> pending_web_adds (final (run_youtube latin1 [(alpha_x, insert_quota_env ''v1'')] initial_state))
       = [''v1'']
   \<and> trace (final (run_spotify latin1 (\<lambda>i. True) [(alpha_x, pasted_env ''u1'')] initial_state))
       = [Spotify_add [''u1'']]
   \<and> cache (final (run_spotify latin1 (\<lambda>i. True) [(alpha_x, pasted_env ''u1'')] initial_state))
       (cache_key latin1 ''spotify'' ''Alpha'' [''X'']) = None"
  by code_simp

section \<open>Token sets\<close>

lemma split_where_nonempty: "split_where P s \<noteq> []"
  by (induction s) (auto split: list.splits)

lemma split_where_hd: "hd (split_where P s) = takeWhile (\<lambda>c. \<not> P c) s"
  by (induction s) (auto split: list.splits simp: split_where_nonempty)

lemma split_where_Cons_sep: "P c \<Longrightarrow> split_where P (c # cs) = [] # split_where P cs"
  by simp

lemma split_where_Cons_char:
  "\<not> P c \<Longrightarrow> split_where P (c # cs) = (c # hd (split_where P cs)) # tl (split_where P cs)"
  using split_where_nonempty [of P cs] by (cases "split_where P cs") auto

lemma takeWhile_run:
  "(\<exists>post. s = w @ post \<and> (\<forall>c \<in> set w. \<not> P c) \<and> (post = [] \<or> P (hd post)))
   \<longleftrightarrow> w = takeWhile (\<lambda>c. \<not> P c) s"
proof
  assume "\<exists>post. s = w @ post \<and> (\<forall>c \<in> set w. \<not> P c) \<and> (post = [] \<or> P (hd post))"
  then obtain post where s: "s = w @ post" and w: "\<forall>c \<in> set w. \<not> P c"
    and post: "post = [] \<or> P (hd post)" by blast
  show "w = takeWhile (\<lambda>c. \<not> P c) s"
  proof (cases post)
    case Nil
    have "takeWhile (\<lambda>c. \<not> P c) w = w" using w by (simp add: takeWhile_eq_all_conv)
    then show ?thesis using s Nil by (metis append_Nil2)
  next
    case (Cons d ds)
    then have "P d" using post by simp
    then show ?thesis using s w Cons by (simp add: takeWhile_append2)
  qed
next
  assume w: "w = takeWhile (\<lambda>c. \<not> P c) s"
  have "s = w @ dropWhile (\<lambda>c. \<not> P c) s" by (simp add: w)
  moreover have "\<forall>c \<in> set w. \<not> P c" using w by (auto dest: set_takeWhileD)
  moreover have "dropWhile (\<lambda>c. \<not> P c) s = [] \<or> P (hd (dropWhile (\<lambda>c. \<not> P c) s))"
    using hd_dropWhile [of "\<lambda>c. \<not> P c" s] by auto
  ultimately show "\<exists>post. s = w @ post \<and> (\<forall>c \<in> set w. \<not> P c) \<and> (post = [] \<or> P (hd post))"
    by blast
qed

lemma later_Nil: "\<not> later P w []"
  by (simp add: later_def)

lemma later_Cons_char: "\<not> P c \<Longrightarrow> later P w (c # cs) \<longleftrightarrow> later P w cs"
proof
  assume c: "\<not> P c" and "later P w (c # cs)"
  then obtain pre post where h: "c # cs = pre @ w @ post" "pre \<noteq> []" "P (last pre)" "w \<noteq> []"
    "\<forall>c \<in> set w. \<not> P c" "post = [] \<or> P (hd post)" unfolding later_def by blast
  then obtain pre' where pre: "pre = c # pre'" by (cases pre) auto
  with h c have "pre' \<noteq> []" by auto
  with h pre show "later P w cs" unfolding later_def by (intro exI [of _ pre'] exI [of _ post]) auto
next
  assume "later P w cs"
  then obtain pre post where h: "cs = pre @ w @ post" "pre \<noteq> []" "P (last pre)" "w \<noteq> []"
    "\<forall>c \<in> set w. \<not> P c" "post = [] \<or> P (hd post)" unfolding later_def by blast
  then show "later P w (c # cs)" unfolding later_def
    by (intro exI [of _ "c # pre"] exI [of _ post]) auto
qed

lemma later_Cons_sep:
  assumes "P c" "w \<noteq> []"
  shows "later P w (c # cs) \<longleftrightarrow> w = takeWhile (\<lambda>c. \<not> P c) cs \<or> later P w cs"
proof
  assume "later P w (c # cs)"
  then obtain pre post where h: "c # cs = pre @ w @ post" "pre \<noteq> []" "P (last pre)" "w \<noteq> []"
    "\<forall>c \<in> set w. \<not> P c" "post = [] \<or> P (hd post)" unfolding later_def by blast
  then obtain pre' where pre: "pre = c # pre'" by (cases pre) auto
  show "w = takeWhile (\<lambda>c. \<not> P c) cs \<or> later P w cs"
  proof (cases "pre' = []")
    case True
    then have "cs = w @ post" using h pre by simp
    then have "w = takeWhile (\<lambda>c. \<not> P c) cs" using h takeWhile_run [of cs w P] by blast
    then show ?thesis ..
  next
    case False
    then have "later P w cs" unfolding later_def using h pre
      by (intro exI [of _ pre'] exI [of _ post]) auto
    then show ?thesis ..
  qed
next
  assume "w = takeWhile (\<lambda>c. \<not> P c) cs \<or> later P w cs"
  then show "later P w (c # cs)"
  proof
    assume "w = takeWhile (\<lambda>c. \<not> P c) cs"
    then obtain post where "cs = w @ post" "\<forall>c \<in> set w. \<not> P c" "post = [] \<or> P (hd post)"
      using takeWhile_run [of cs w P] by blast
    then show ?thesis unfolding later_def using assms
      by (intro exI [of _ "[c]"] exI [of _ post]) auto
  next
    assume "later P w cs"
    then obtain pre post where h: "cs = pre @ w @ post" "pre \<noteq> []" "P (last pre)" "w \<noteq> []"
      "\<forall>c \<in> set w. \<not> P c" "post = [] \<or> P (hd post)" unfolding later_def by blast
    then show ?thesis unfolding later_def
      by (intro exI [of _ "c # pre"] exI [of _ post]) auto
  qed
qed

lemma split_where_tl: "w \<noteq> [] \<Longrightarrow> w \<in> set (tl (split_where P s)) \<longleftrightarrow> later P w s"
proof (induction s)
  case Nil
  show ?case by (simp add: later_Nil)
next
  case (Cons c cs)
  show ?case
  proof (cases "P c")
    case True
    have "w \<in> set (split_where P cs)
        \<longleftrightarrow> w = hd (split_where P cs) \<or> w \<in> set (tl (split_where P cs))"
      using split_where_nonempty [of P cs] by (cases "split_where P cs") auto
    then show ?thesis
      using True Cons by (simp add: later_Cons_sep split_where_hd)
  next
    case False
    then show ?thesis
      using Cons by (simp add: split_where_Cons_char later_Cons_char del: split_where.simps)
  qed
qed

lemma maximal_token_split:
  "maximal_token (\<lambda>c. \<not> P c) w s \<longleftrightarrow> w \<noteq> [] \<and> (w = takeWhile (\<lambda>c. \<not> P c) s \<or> later P w s)"
proof
  assume "maximal_token (\<lambda>c. \<not> P c) w s"
  then obtain pre post where h: "s = pre @ w @ post" "w \<noteq> []" "\<forall>c \<in> set w. \<not> P c"
    "pre = [] \<or> P (last pre)" "post = [] \<or> P (hd post)"
    unfolding maximal_token_def by auto
  show "w \<noteq> [] \<and> (w = takeWhile (\<lambda>c. \<not> P c) s \<or> later P w s)"
  proof (cases "pre = []")
    case True
    then have "w = takeWhile (\<lambda>c. \<not> P c) s" using h takeWhile_run [of s w P] by auto
    then show ?thesis using h by simp
  next
    case False
    then have "later P w s" unfolding later_def using h
      by (intro exI [of _ pre] exI [of _ post]) auto
    then show ?thesis using h by simp
  qed
next
  assume a: "w \<noteq> [] \<and> (w = takeWhile (\<lambda>c. \<not> P c) s \<or> later P w s)"
  then consider "w = takeWhile (\<lambda>c. \<not> P c) s" | "later P w s" by blast
  then show "maximal_token (\<lambda>c. \<not> P c) w s"
  proof cases
    case 1
    then obtain post where "s = w @ post" "\<forall>c \<in> set w. \<not> P c" "post = [] \<or> P (hd post)"
      using takeWhile_run [of s w P] by blast
    then show ?thesis unfolding maximal_token_def using a
      by (intro exI [of _ "[]"] exI [of _ post]) auto
  next
    case 2
    then obtain pre post where h: "s = pre @ w @ post" "pre \<noteq> []" "P (last pre)" "w \<noteq> []"
      "\<forall>c \<in> set w. \<not> P c" "post = [] \<or> P (hd post)" unfolding later_def by blast
    then show ?thesis unfolding maximal_token_def
      by (intro exI [of _ pre] exI [of _ post]) auto
  qed
qed

lemma split_where_tokens:
  "w \<noteq> [] \<and> w \<in> set (split_where P s) \<longleftrightarrow> maximal_token (\<lambda>c. \<not> P c) w s"
proof -
  have "w \<in> set (split_where P s) \<longleftrightarrow> w = hd (split_where P s) \<or> w \<in> set (tl (split_where P s))"
    using split_where_nonempty [of P s] by (cases "split_where P s") auto
  then show ?thesis
    using split_where_tl [of w P s] by (auto simp: maximal_token_split split_where_hd)
qed

lemma words_after_Nil: "words_after P [] s = filter (\<lambda>w. w \<noteq> []) (split_where P s)"
  using split_where_nonempty [of P s] by (cases "split_where P s") (auto simp: words_after_def)

lemma words_after_sep:
  "P c \<Longrightarrow> words_after P acc (c # cs) = (if acc = [] then [] else [acc]) @ words_after P [] cs"
  by (simp add: words_after_Nil) (simp add: words_after_def)

lemma words_after_char: "\<not> P c \<Longrightarrow> words_after P acc (c # cs) = words_after P (acc @ [c]) cs"
  by (simp add: words_after_def split_where_Cons_char del: split_where.simps)

lemma words_after_dropWhile:
  "(\<And>c. N c \<Longrightarrow> P c) \<Longrightarrow> words_after P [] (dropWhile N cs) = words_after P [] cs"
  by (induction cs) (auto simp: words_after_sep)

lemma words_after_sub_runs:
  assumes sep: "\<And>c. P c \<longleftrightarrow> N c \<or> is_space c"
  shows "words_after is_space acc (sub_runs N x) = words_after P acc x"
proof (induction "length x" arbitrary: x acc rule: less_induct)
  case less
  show ?case
  proof (cases x)
    case Nil
    then show ?thesis by (simp add: words_after_def)
  next
    case (Cons c cs)
    have sp: "is_space (CHR '' '')" by (simp add: is_space_def code_def)
    show ?thesis
    proof (cases "N c")
      case True
      have len: "length (dropWhile N cs) < length x"
        using Cons length_dropWhile_le [of N cs] by simp
      have "words_after is_space [] (sub_runs N (dropWhile N cs)) = words_after P [] (dropWhile N cs)"
        by (rule less [OF len])
      also have "\<dots> = words_after P [] cs"
        by (rule words_after_dropWhile) (simp add: sep)
      finally show ?thesis
        using True Cons sp by (simp add: words_after_sep sep)
    next
      case False
      have len: "length cs < length x" using Cons by simp
      show ?thesis
      proof (cases "is_space c")
        case True
        then show ?thesis
          using False Cons less [OF len, of "[]"] by (simp add: words_after_sep sep)
      next
        case sp': False
        then show ?thesis
          using False Cons less [OF len, of "acc @ [c]"] by (simp add: words_after_char sep)
      qed
    qed
  qed
qed

lemma split_where_map:
  "split_where P (map f s) = map (map f) (split_where (\<lambda>c. P (f c)) s)"
  by (induction s) (auto split: list.splits)

lemma split_where_pieces: "\<forall>w \<in> set (split_where P s). \<forall>c \<in> set w. \<not> P c"
  by (induction s) (auto split: list.splits)

lemma split_ws_tokens: "w \<in> set (split_ws s) \<longleftrightarrow> maximal_token (\<lambda>c. \<not> is_space c) w s"
  unfolding split_ws_def using split_where_tokens [of w is_space s] by auto

lemma latin1_python_str: "python_str latin1"
proof -
  have a: "code c < 128 \<Longrightarrow> latin1_isalnum c = is_alnum c" for c
    by (auto simp: latin1_isalnum_def)
  have b: "code c < 128 \<Longrightarrow> latin1_isspace c = is_space c" for c
    by (auto simp: latin1_isspace_def)
  have c: "code c < 128 \<Longrightarrow> latin1_lower_char c = lower_char c" for c
    by (auto simp: latin1_lower_char_def lower_char_def)
  have d: "latin1_isalnum c \<Longrightarrow> \<not> latin1_isspace c" for c
    by (auto simp: latin1_isalnum_def latin1_isspace_def is_alnum_def is_space_def
        is_lower_alpha_def is_upper_alpha_def is_digit_def)
  have l: "(\<forall>c \<in> set s. code c < 128) \<Longrightarrow> map latin1_lower_char s = lower s" for s
    unfolding lower_def by (rule map_cong) (auto simp: c)
  show ?thesis
    unfolding python_str_def latin1_def using a b d l by simp
qed

text \<open>
  C8, as the code has it. The legacy \<^verbatim>\<open>token_set\<close> folds to ASCII lower case, and a
  word is in its result exactly when it is a maximal run of characters of \<^verbatim>\<open>[a-z0-9]\<close>
  in the folded text and is none of its sixteen stop words: the, a, an, official, video,
  audio, lyric, lyrics, remix, edit, radio, version, feat, ft, con, with.
  \<^verbatim>\<open>websearch.token_set\<close> lowers the text with \<^verbatim>\<open>str.lower\<close> and does not fold it
  (a letter with an accent stays), blanks every \<^verbatim>\<open>(official)\<close>, \<^verbatim>\<open>[official]\<close>,
  \<^verbatim>\<open>video\<close> and \<^verbatim>\<open>audio\<close> in it, and a word is in its result exactly when it is a
  maximal run of characters that \<^verbatim>\<open>str.isalnum\<close> accepts in what is left and is none
  of its eleven stop words: the, a, an, feat, featuring, official, video, audio, ft, con,
  with. The Latin-1 reading of the characters is an instance of the methods of
  \<^verbatim>\<open>str\<close>.
\<close>

theorem token_set_maximal_tokens:
  "(w \<in> token_set_legacy s \<longleftrightarrow>
      maximal_token is_token_char w (ascii_fold s) \<and> w \<notin> set stop_legacy)
   \<and> set stop_legacy = {''the'', ''a'', ''an'', ''official'', ''video'', ''audio'', ''lyric'',
        ''lyrics'', ''remix'', ''edit'', ''radio'', ''version'', ''feat'', ''ft'', ''con'', ''with''}
   \<and> (python_str U \<longrightarrow>
        (w \<in> token_set U raw \<longleftrightarrow>
           maximal_token (str_isalnum U) w
             (replace ''audio'' '' '' (replace ''video'' '' ''
                (replace ''[official]'' '' '' (replace ''(official)'' '' '' (str_lower U raw)))))
           \<and> w \<notin> set stop_words))
   \<and> set stop_words = {''the'', ''a'', ''an'', ''feat'', ''featuring'', ''official'', ''video'',
        ''audio'', ''ft'', ''con'', ''with''}
   \<and> python_str latin1"
proof (intro conjI impI)
  have cls: "(\<not> is_token_char c) \<longleftrightarrow> not_token_char c \<or> is_space c" for c
    by (auto simp: is_token_char_def not_token_char_def is_space_def is_lower_alpha_def
        is_digit_def code_def)
  have "split_ws (sub_runs not_token_char (ascii_fold s))
      = words_after is_space [] (sub_runs not_token_char (ascii_fold s))"
    by (simp add: split_ws_def words_after_Nil)
  also have "\<dots> = words_after (\<lambda>c. \<not> is_token_char c) [] (ascii_fold s)"
    by (rule words_after_sub_runs) (rule cls)
  finally have "split_ws (sub_runs not_token_char (ascii_fold s))
      = filter (\<lambda>w. w \<noteq> []) (split_where (\<lambda>c. \<not> is_token_char c) (ascii_fold s))"
    by (simp add: words_after_Nil)
  then show "w \<in> token_set_legacy s \<longleftrightarrow>
      maximal_token is_token_char w (ascii_fold s) \<and> w \<notin> set stop_legacy"
    using split_where_tokens [of w "\<lambda>c. \<not> is_token_char c" "ascii_fold s"]
    by (auto simp: token_set_legacy_def)
next
  show "set stop_legacy = {''the'', ''a'', ''an'', ''official'', ''video'', ''audio'', ''lyric'',
        ''lyrics'', ''remix'', ''edit'', ''radio'', ''version'', ''feat'', ''ft'', ''con'', ''with''}"
    by (auto simp: stop_legacy_def)
next
  assume py: "python_str U"
  let ?b = "replace ''audio'' '' '' (replace ''video'' '' ''
             (replace ''[official]'' '' '' (replace ''(official)'' '' '' (str_lower U raw))))"
  let ?f = "\<lambda>ch. if str_isalnum U ch then ch else CHR '' ''"
  have blank: "str_isspace U (CHR '' '')"
    using py unfolding python_str_def by (simp add: is_space_def code_def)
  have apart: "str_isalnum U c \<Longrightarrow> \<not> str_isspace U c" for c
    using py unfolding python_str_def by blast
  have cls: "str_isspace U (?f c) \<longleftrightarrow> \<not> str_isalnum U c" for c
    using blank apart by auto
  have same: "map ?f p = p" if "p \<in> set (split_where (\<lambda>c. \<not> str_isalnum U c) ?b)" for p
    using split_where_pieces [of "\<lambda>c. \<not> str_isalnum U c" ?b] that by (auto intro: map_idI)
  have "split_where (str_isspace U) (map ?f ?b)
      = map (map ?f) (split_where (\<lambda>c. \<not> str_isalnum U c) ?b)"
    by (simp add: split_where_map cls)
  also have "\<dots> = split_where (\<lambda>c. \<not> str_isalnum U c) ?b"
    using same by (simp add: map_idI)
  finally have "str_split U (map ?f ?b)
      = filter (\<lambda>w. w \<noteq> []) (split_where (\<lambda>c. \<not> str_isalnum U c) ?b)"
    by (simp add: str_split_def)
  then show "w \<in> token_set U raw \<longleftrightarrow> maximal_token (str_isalnum U) w ?b \<and> w \<notin> set stop_words"
    using split_where_tokens [of w "\<lambda>c. \<not> str_isalnum U c" ?b]
    by (auto simp: token_set_def Let_def)
next
  show "set stop_words = {''the'', ''a'', ''an'', ''feat'', ''featuring'', ''official'', ''video'',
        ''audio'', ''ft'', ''con'', ''with''}"
    by (auto simp: stop_words_def)
next
  show "python_str latin1" by (rule latin1_python_str)
qed

theorem token_set_maximal_tokens_witness:
  "python_str latin1
   \<and> maximal_token is_token_char ''song'' (ascii_fold ''The Song (Official Video)'')
   \<and> maximal_token (str_isalnum latin1) (''beyonc'' @ [CHR 0xE9])
        (replace ''audio'' '' '' (replace ''video'' '' '' (replace ''[official]'' '' ''
           (replace ''(official)'' '' '' (str_lower latin1 (''Beyonc'' @ [CHR 0xE9] @ '' Halo''))))))"
proof -
  have ev: "''song'' \<in> token_set_legacy ''The Song (Official Video)''"
    "''beyonc'' @ [CHR 0xE9] \<in> token_set latin1 (''Beyonc'' @ [CHR 0xE9] @ '' Halo'')"
    by code_simp+
  show ?thesis
    using token_set_maximal_tokens [where w = "''song''" and s = "''The Song (Official Video)''"
        and U = latin1 and raw = "''The Song (Official Video)''"]
      token_set_maximal_tokens [where w = "''beyonc'' @ [CHR 0xE9]" and s = "[]"
        and U = latin1 and raw = "''Beyonc'' @ [CHR 0xE9] @ '' Halo''"] ev
    by blast
qed

text \<open>
  C8 as stated fails: the legacy \<^verbatim>\<open>token_set\<close> keeps the word featuring, which the
  claim lists as a stop word; \<^verbatim>\<open>websearch.token_set\<close> keeps remix, from
  \<^verbatim>\<open>videogame\<close> it gives \<^verbatim>\<open>game\<close>, which is no maximal token of the text, and it
  does not fold: from the Latin-1 text Beyonce Halo written with the accented letter of
  code 233, it gives the first word with that letter, where folding gives an e.
\<close>

theorem token_set_stop_words_counterexample:
  "token_set_legacy ''featuring'' = {''featuring''}
   \<and> token_set latin1 ''remix'' = {''remix''}
   \<and> token_set latin1 ''videogame'' = {''game''}
   \<and> token_set latin1 (''Beyonc'' @ [CHR 0xE9] @ '' Halo'') = {''beyonc'' @ [CHR 0xE9], ''halo''}"
  by code_simp

end
